theory Spec2Isabelle
  imports Complex_Main
begin

section \<open>Integer index vectors and the half-space reduction\<close>

text \<open>
  Index vectors are rows of three integers (\<open>torch.long\<close> tensors whose last axis has
  length 3).  All values that occur are bounded by the grid dimensions, so they are
  modelled as unbounded integers.  The operator \<open>%\<close> of the source rounds towards minus
  infinity, as \<open>mod\<close> on \<open>int\<close> does.
\<close>

type_synonym vec3 = "int \<times> int \<times> int"
type_synonym mat3 = "vec3 \<times> vec3 \<times> vec3"

fun mod3 :: "vec3 \<Rightarrow> vec3 \<Rightarrow> vec3" where
  "mod3 (a, b, c) (p, q, r) = (a mod p, b mod q, c mod r)"

fun neg3 :: "vec3 \<Rightarrow> vec3" where
  "neg3 (a, b, c) = (- a, - b, - c)"

fun dot3 :: "vec3 \<Rightarrow> vec3 \<Rightarrow> int" where
  "dot3 (a, b, c) (p, q, r) = a * p + b * q + c * r"

fun z3 :: "vec3 \<Rightarrow> int" where
  "z3 (a, b, c) = c"

fun prod3 :: "vec3 \<Rightarrow> int" where
  "prod3 (a, b, c) = a * b * c"

text \<open>\<open>iH @ rot_i\<close>: a row vector times a matrix given by its rows.\<close>

fun vecmat :: "vec3 \<Rightarrow> mat3 \<Rightarrow> vec3" where
  "vecmat (a, b, c) ((r00, r01, r02), (r10, r11, r12), (r20, r21, r22)) =
     (a * r00 + b * r10 + c * r20,
      a * r01 + b * r11 + c * r21,
      a * r02 + b * r12 + c * r22)"

text \<open>\<open>strideH = [shapeH[1] * shapeH[2], shapeH[2], 1]\<close>\<close>

fun strideH :: "vec3 \<Rightarrow> vec3" where
  "strideH (h0, h1, h2) = (h1 * h2, h2, 1)"

text \<open>
  \<open>get_index\<close> of \<open>FieldSymmetrizer.__init__\<close>, for one index vector; the source maps it
  over a tensor of vectors.  \<open>shapeR\<close> is \<open>grid.shape\<close> and \<open>shapeH\<close> is \<open>grid.shapeH\<close>.
\<close>

definition get_index :: "vec3 \<Rightarrow> vec3 \<Rightarrow> vec3 \<Rightarrow> int \<times> bool" where
  "get_index shapeR shapeH iH =
     (let iH_wrapped = mod3 iH shapeR;
          is_conj = (z3 iH_wrapped \<ge> z3 shapeH);
          iH_wrapped = (if is_conj then mod3 (neg3 iH_wrapped) shapeR else iH_wrapped)
      in (dot3 iH_wrapped (strideH shapeH), is_conj))"

text \<open>
  The grid collaborator keeps \<open>shapeH\<close> as the half-space shape of \<open>shape\<close>: the first two
  dimensions are those of the full grid and the last one is \<open>shape[2] // 2 + 1\<close>.  All
  dimensions are positive.
\<close>

fun shapes_ok :: "vec3 \<Rightarrow> vec3 \<Rightarrow> bool" where
  "shapes_ok (s0, s1, s2) shapeH =
     (0 < s0 \<and> 0 < s1 \<and> 0 < s2 \<and> shapeH = (s0, s1, s2 div 2 + 1))"

section \<open>Errors and tensor indexing\<close>

datatype error = AssertionError | AttributeError | IndexError | RuntimeError | ZeroDivisionError

text \<open>
  Reading position \<open>k\<close> of a tensor axis of length \<open>n\<close>: a negative position counts from
  the end, and a position outside \<open>[-n, n)\<close> raises.
\<close>

definition py_pos :: "nat \<Rightarrow> int \<Rightarrow> error + nat" where
  "py_pos n k =
     (if 0 \<le> k \<and> k < int n then Inr (nat k)
      else if - int n \<le> k \<and> k < 0 then Inr (nat (k + int n))
      else Inl IndexError)"

definition py_nth :: "'a list \<Rightarrow> int \<Rightarrow> error + 'a" where
  "py_nth xs k = (case py_pos (length xs) k of Inl e \<Rightarrow> Inl e | Inr i \<Rightarrow> Inr (xs ! i))"

fun mapM :: "('a \<Rightarrow> error + 'b) \<Rightarrow> 'a list \<Rightarrow> error + 'b list" where
  "mapM f [] = Inr []"
| "mapM f (x # xs) =
     (case f x of Inl e \<Rightarrow> Inl e
      | Inr y \<Rightarrow> (case mapM f xs of Inl e \<Rightarrow> Inl e | Inr ys \<Rightarrow> Inr (y # ys)))"

text \<open>\<open>xs[ks]\<close> with an index tensor \<open>ks\<close>.\<close>

definition index_select :: "'a list \<Rightarrow> int list \<Rightarrow> error + 'a list" where
  "index_select xs ks = mapM (py_nth xs) ks"

text \<open>\<open>torch.unique\<close> (sorted) and the counts of \<open>return_counts=True\<close>.\<close>

definition unique :: "int list \<Rightarrow> int list" where
  "unique xs = sort (remdups xs)"

definition unique_counts :: "int list \<Rightarrow> int list" where
  "unique_counts xs = map (\<lambda>x. int (count_list xs x)) (unique xs)"

text \<open>
  \<open>torch.searchsorted(seq, v)\<close> on a sorted sequence: the first position whose element is
  not below \<open>v\<close>, which is the number of leading elements below \<open>v\<close>.
\<close>

definition searchsorted :: "int list \<Rightarrow> int \<Rightarrow> int" where
  "searchsorted seq v = int (length (takeWhile (\<lambda>x. x < v) seq))"

text \<open>\<open>argsort\<close>: the positions in increasing order of their keys.\<close>

definition argsort :: "int list \<Rightarrow> nat list" where
  "argsort ks = sort_key (\<lambda>i. ks ! i) [0..<length ks]"

text \<open>\<open>np.diff\<close>\<close>

definition diff :: "int list \<Rightarrow> int list" where
  "diff xs = map (\<lambda>(a, b). b - a) (zip xs (tl xs))"

section \<open>Collaborators: task division and grid\<close>

text \<open>
  Modelled from the spec: \<open>qp.utils.TaskDivision\<close> is not part of the sources.  It divides
  \<open>n_tot\<close> tasks into contiguous blocks of \<open>n_each = ceil(n_tot / n_procs)\<close> tasks, worker
  \<open>p\<close> owning \<open>[n_prev[p], n_prev[p+1])\<close>, the last blocks possibly shorter.
\<close>

record task_division =
  td_n_tot :: nat
  td_n_procs :: nat
  td_i_proc :: nat

definition n_each :: "task_division \<Rightarrow> nat" where
  "n_each d = (td_n_tot d + td_n_procs d - 1) div td_n_procs d"

definition n_prev :: "task_division \<Rightarrow> int list" where
  "n_prev d = map (\<lambda>p. int (min (td_n_tot d) (n_each d * p))) [0..<td_n_procs d + 1]"

definition i_start :: "task_division \<Rightarrow> nat" where
  "i_start d = min (td_n_tot d) (n_each d * td_i_proc d)"

definition i_stop :: "task_division \<Rightarrow> nat" where
  "i_stop d = min (td_n_tot d) (n_each d * (td_i_proc d + 1))"

definition whose_each :: "task_division \<Rightarrow> int \<Rightarrow> int" where
  "whose_each d i = i div int (n_each d)"

text \<open>
  The attributes of \<open>Grid\<close> that the symmetrizer reads.  \<open>grid_id\<close> is the identity of the
  grid object (the class is compared with \<open>==\<close>, which is object identity), \<open>mesh_H\<close> is
  \<open>grid.get_mesh('H', mine=False).view(-1, 3)\<close>, and \<open>rot\<close>, \<open>trans\<close> are the rotations and
  translations of \<open>grid.symmetries\<close>.
\<close>

record grid =
  grid_id :: nat
  shape :: vec3
  shapeH :: vec3
  shapeH_mine :: vec3
  n_procs :: nat
  i_proc :: nat
  rot :: "mat3 list"
  trans :: "(real \<times> real \<times> real) list"
  mesh_H :: "vec3 list"
  split2H :: task_division

section \<open>Construction of the symmetrizer\<close>

definition fold_index :: "grid \<Rightarrow> vec3 \<Rightarrow> int" where
  "fold_index g v = fst (get_index (shape g) (shapeH g) v)"

definition fold_conj :: "grid \<Rightarrow> vec3 \<Rightarrow> bool" where
  "fold_conj g v = snd (get_index (shape g) (shapeH g) v)"

text \<open>The loop over \<open>rot\<close> that lowers \<open>min_equiv_index\<close> (lines 34 to 38).\<close>

definition min_equiv_index :: "grid \<Rightarrow> int list" where
  "min_equiv_index g =
     foldl (\<lambda>acc rot_i. map (\<lambda>(m, v). min m (fold_index g (vecmat v rot_i)))
                              (zip acc (mesh_H g)))
       (map (fold_index g) (mesh_H g)) (rot g)"

definition orbit_keys :: "grid \<Rightarrow> int list" where
  "orbit_keys g = unique (min_equiv_index g)"

text \<open>\<open>index, is_conj = get_index((iH_reduced @ rot).transpose(0, 1))\<close>\<close>

definition index_table :: "grid \<Rightarrow> vec3 list \<Rightarrow> int list list" where
  "index_table g iH_reduced =
     map (\<lambda>k. map (\<lambda>r. fold_index g (vecmat k r)) (rot g)) iH_reduced"

definition conj_table :: "grid \<Rightarrow> vec3 list \<Rightarrow> bool list list" where
  "conj_table g iH_reduced =
     map (\<lambda>k. map (\<lambda>r. fold_conj g (vecmat k r)) (rot g)) iH_reduced"

text \<open>
  \<open>phase = cis(-2 pi * (iH_reduced[:, None] * trans).sum(dim=-1))\<close>, over the reals;
  \<open>qp.utils.cis\<close> is taken to be the unit complex number of the given angle.
\<close>

fun dot3r :: "vec3 \<Rightarrow> real \<times> real \<times> real \<Rightarrow> real" where
  "dot3r (a, b, c) (x, y, z) = of_int a * x + of_int b * y + of_int c * z"

definition phase_table :: "grid \<Rightarrow> vec3 list \<Rightarrow> complex list list" where
  "phase_table g iH_reduced =
     map (\<lambda>k. map (\<lambda>t. cis ((- 2 * pi) * dot3r k t)) (trans g)) iH_reduced"

text \<open>
  The index arrays kept by the constructor: \<open>index\<close> without MPI, and \<open>send_prev\<close>,
  \<open>recv_prev\<close>, \<open>grid_index\<close>, \<open>recv_index\<close>, \<open>orbit_index\<close> with MPI.
\<close>

datatype layout =
    Serial (s_index: "int list list")
  | Parallel (send_prev: "int list") (recv_prev: "int list") (grid_index: "int list")
      (recv_index: "nat list") (orbit_index: "nat list")

record engine =
  e_grid :: grid
  e_layout :: layout
  imag_scale :: "bool list list"
  phase :: "complex list list"
  n_orbits_mine :: nat
  n_sym :: nat
  inv_multiplicity :: "real list"

text \<open>\<open>xs[start:stop]\<close>\<close>

definition slice :: "nat \<Rightarrow> nat \<Rightarrow> 'a list \<Rightarrow> 'a list" where
  "slice start stop xs = take (stop - start) (drop start xs)"

text \<open>The entries \<open>(row, column)\<close> of a table that satisfy \<open>P\<close>, in row-major order
  (\<open>torch.where\<close>).\<close>

definition where_eq :: "int list list \<Rightarrow> int \<Rightarrow> (nat \<times> nat) list" where
  "where_eq tab x =
     concat (map (\<lambda>r. map (\<lambda>s. (r, s)) (filter (\<lambda>s. tab ! r ! s = x) [0..<length (tab ! r)]))
                 [0..<length tab])"

text \<open>\<open>multiplicity.view(shapeH)[..., i_start:i_stop].flatten()\<close>\<close>

definition local_multiplicity :: "vec3 \<Rightarrow> nat \<Rightarrow> nat \<Rightarrow> int list \<Rightarrow> error + int list" where
  "local_multiplicity sH start stop mult =
     (if int (length mult) \<noteq> prod3 sH then Inl RuntimeError
      else Inr (concat (map (\<lambda>r. slice start stop
                                    (slice (r * nat (z3 sH)) (r * nat (z3 sH) + nat (z3 sH)) mult))
                            [0..<length mult div nat (z3 sH)])))"

text \<open>\<open>orbit_index[recv_index] = local_index\<close> on a fresh array.\<close>

definition inverse_index :: "nat list \<Rightarrow> nat list" where
  "inverse_index recv =
     fold (\<lambda>j oi. oi[recv ! j := j]) [0..<length recv] (replicate (length recv) 0)"

fun strideH_local :: "vec3 \<Rightarrow> vec3 \<Rightarrow> vec3" where
  "strideH_local (h0, h1, h2) (m0, m1, m2) = (h1 * m2, m2, 1)"

fun sub_z :: "vec3 \<Rightarrow> int \<Rightarrow> vec3" where
  "sub_z (a, b, c) d = (a, b, c - d)"

text \<open>
  Lines 94 and 95.  \<open>torch.ones_like(is_conj)\<close> has the dtype of \<open>is_conj\<close>, which is bool:
  its entries are \<open>True\<close>, and the masked assignment of \<open>-1\<close> stores \<open>bool(-1)\<close>, again \<open>True\<close>.
\<close>

definition to_bool :: "int \<Rightarrow> bool" where
  "to_bool k = (k \<noteq> 0)"

definition scale_of :: "bool \<Rightarrow> bool" where
  "scale_of c = (if c then to_bool (- 1) else to_bool 1)"

text \<open>
  The index arrays of the MPI branch (lines 56 to 89), from the orbit division \<open>div_dest\<close>
  and the mesh vectors \<open>iH[index]\<close>.
\<close>

definition build_layout :: "grid \<Rightarrow> task_division \<Rightarrow> vec3 list list \<Rightarrow> layout" where
  "build_layout g div_dest iH_index =
     (let div_src = split2H g;
          whose_src = map (map (\<lambda>v. whose_each div_src (z3 v))) iH_index;
          mine_src = where_eq whose_src (int (i_proc g));
          send_prev = map (searchsorted (map (\<lambda>(r, s). int r) mine_src)) (n_prev div_dest);
          iH_local = map (\<lambda>(r, s). sub_z (mod3 (iH_index ! r ! s) (shape g))
                                           (int (i_start div_src))) mine_src;
          grid_index = map (\<lambda>v. dot3 v (strideH_local (shapeH g) (shapeH_mine g))) iH_local;
          whose_src_mine = concat (slice (i_start div_dest) (i_stop div_dest) whose_src);
          n = length whose_src_mine;
          recv_index = argsort (map (\<lambda>(w, l). w * int n + int l) (zip whose_src_mine [0..<n]));
          recv_prev = map (searchsorted (map (\<lambda>i. whose_src_mine ! i) recv_index))
                          (map int [0..<n_procs g + 1])
      in Parallel send_prev recv_prev grid_index recv_index (inverse_index recv_index))"

text \<open>
  \<open>FieldSymmetrizer.__init__\<close>.  The reads \<open>iH[...]\<close> raise on a position outside the mesh,
  \<open>1./n_sym\<close> raises for an empty operation list, and the MPI branch is taken for more
  than one process.  The grid keeps \<open>i_proc < n_procs\<close>.
\<close>

definition init :: "grid \<Rightarrow> error + engine" where
  "init g =
    (case index_select (mesh_H g) (orbit_keys g) of Inl e \<Rightarrow> Inl e
     | Inr iH_reduced \<Rightarrow>
       let index = index_table g iH_reduced;
           is_conj = conj_table g iH_reduced;
           multiplicity = unique_counts (concat index)
       in if 1 < n_procs g then
            (let div_dest = \<lparr>td_n_tot = length iH_reduced, td_n_procs = n_procs g,
                             td_i_proc = i_proc g\<rparr>;
                 is_conj_mine = slice (i_start div_dest) (i_stop div_dest) is_conj;
                 iH_reduced_mine = slice (i_start div_dest) (i_stop div_dest) iH_reduced
             in case mapM (index_select (mesh_H g)) index of Inl e \<Rightarrow> Inl e
                | Inr iH_index \<Rightarrow>
                  (case local_multiplicity (shapeH g) (i_start (split2H g)) (i_stop (split2H g))
                          multiplicity of Inl e \<Rightarrow> Inl e
                   | Inr multiplicity_mine \<Rightarrow>
                       if rot g = [] then Inl ZeroDivisionError
                       else Inr \<lparr>e_grid = g,
                                 e_layout = build_layout g div_dest iH_index,
                                 imag_scale = map (map scale_of) is_conj_mine,
                                 phase = phase_table g iH_reduced_mine,
                                 n_orbits_mine = length is_conj_mine,
                                 n_sym = length (rot g),
                                 inv_multiplicity =
                                   map (\<lambda>m. (1 / real (length (rot g))) / of_int m)
                                       multiplicity_mine\<rparr>))
          else if rot g = [] then Inl ZeroDivisionError
          else Inr \<lparr>e_grid = g,
                    e_layout = Serial index,
                    imag_scale = map (map scale_of) is_conj,
                    phase = phase_table g iH_reduced,
                    n_orbits_mine = length is_conj,
                    n_sym = length (rot g),
                    inv_multiplicity =
                      map (\<lambda>m. (1 / real (length (rot g))) / of_int m) multiplicity\<rparr>)"

section \<open>The symmetrization call\<close>

text \<open>
  A field holds its grid and a complex data tensor: the shape, the elements in row-major
  order, and whether the tensor is contiguous in memory, which decides whether
  \<open>v.data.reshape\<close> returns a view of the tensor or a copy.  The element type is fixed, so
  the dtype cannot change.
\<close>

record field =
  f_grid :: grid
  data_shape :: "nat list"
  data :: "complex list"
  contiguous :: bool

text \<open>\<open>int(np.prod(v.data.shape[:-3]))\<close> and \<open>int(np.prod(grid.shapeH_mine))\<close>\<close>

definition n_batch_of :: "nat list \<Rightarrow> nat" where
  "n_batch_of shp = prod_list (take (length shp - 3) shp)"

definition n_grid_of :: "grid \<Rightarrow> nat" where
  "n_grid_of g = nat (prod3 (shapeH_mine g))"

definition rows_of :: "nat \<Rightarrow> nat \<Rightarrow> 'a list \<Rightarrow> 'a list list" where
  "rows_of nb ng xs = map (\<lambda>b. take ng (drop (b * ng) xs)) [0..<nb]"

text \<open>\<open>_conjugate\<close>: \<open>v_orbits.imag *= self.imag_scale\<close>, for one batch element.  In the
  product of a float tensor with a bool tensor \<open>True\<close> counts as 1 and \<open>False\<close> as 0.\<close>

definition conj_slot :: "bool \<Rightarrow> complex \<Rightarrow> complex" where
  "conj_slot sc z = Complex (Re z) (Im z * of_bool sc)"

definition conjugate :: "engine \<Rightarrow> complex list list \<Rightarrow> complex list list" where
  "conjugate e v_orbits =
     map (\<lambda>(scs, zs). map (\<lambda>(sc, z). conj_slot sc z) (zip scs zs)) (zip (imag_scale e) v_orbits)"

text \<open>Lines 143 and 144: the sum over the operations and its redistribution.\<close>

definition perform :: "engine \<Rightarrow> complex list list \<Rightarrow> complex list list" where
  "perform e v_orbits =
     map (\<lambda>(ps, zs). let v_sym = sum_list (map (\<lambda>(p, z). z * p) (zip ps zs))
                      in map (\<lambda>p. v_sym * cnj p) ps)
         (zip (phase e) v_orbits)"

definition symmetrize_orbits :: "engine \<Rightarrow> complex list list \<Rightarrow> complex list list" where
  "symmetrize_orbits e v_orbits = conjugate e (perform e (conjugate e v_orbits))"

text \<open>\<open>index_put_\<close> with \<open>accumulate=True\<close> on one row: every value is added at its
  position.\<close>

definition index_put_acc :: "complex list \<Rightarrow> nat list \<Rightarrow> complex list \<Rightarrow> complex list" where
  "index_put_acc buf ks ws =
     map (\<lambda>i. buf ! i + sum_list (map snd (filter (\<lambda>(k, w). k = i) (zip ks ws))))
         [0..<length buf]"

text \<open>\<open>v_data *= self.inv_multiplicity[None]\<close>, with the broadcasting rule of an in-place
  product: the factor has one entry per grid point, or a single entry.\<close>

definition scale_rows :: "real list \<Rightarrow> nat \<Rightarrow> complex list list \<Rightarrow> error + complex list list" where
  "scale_rows ms ng v_data =
     (if length ms = ng
      then Inr (map (\<lambda>row. map (\<lambda>(m, z). z * of_real m) (zip ms row)) v_data)
      else if length ms = 1
      then Inr (map (map (\<lambda>z. z * of_real (ms ! 0))) v_data)
      else Inl RuntimeError)"

text \<open>
  The communicator is a collaborator.  What \<open>Alltoallv\<close> delivers to this process is a
  parameter of the call: one payload per source rank, written into the receive buffer at
  that rank's offset, at most the announced count.
\<close>

definition write_at :: "complex list \<Rightarrow> nat \<Rightarrow> complex list \<Rightarrow> complex list" where
  "write_at buf off xs =
     map (\<lambda>j. if off \<le> j \<and> j < off + length xs then xs ! (j - off) else buf ! j)
         [0..<length buf]"

definition alltoallv_recv ::
  "complex list \<Rightarrow> int list \<Rightarrow> int list \<Rightarrow> complex list list \<Rightarrow> complex list" where
  "alltoallv_recv buf counts offsets payloads =
     fold (\<lambda>p b. write_at b (nat (offsets ! p)) (take (nat (counts ! p)) (payloads ! p)))
          [0..<min (length counts) (min (length offsets) (length payloads))] buf"

text \<open>The count and offset arrays handed to \<open>Alltoallv\<close> (lines 122 to 125).\<close>

record exchange =
  send_counts :: "int list"
  send_offsets :: "int list"
  recv_counts :: "int list"
  recv_offsets :: "int list"

definition gather_exchange :: "layout \<Rightarrow> nat \<Rightarrow> exchange" where
  "gather_exchange l n_batch =
     \<lparr>send_counts = map (\<lambda>c. c * int n_batch) (diff (send_prev l)),
      send_offsets = map (\<lambda>c. c * int n_batch) (butlast (send_prev l)),
      recv_counts = map (\<lambda>c. c * int n_batch) (diff (recv_prev l)),
      recv_offsets = map (\<lambda>c. c * int n_batch) (butlast (recv_prev l))\<rparr>"

text \<open>The second exchange passes \<open>recv_counts, recv_offsets\<close> for the buffer it sends and
  \<open>send_counts, send_offsets\<close> for the buffer it receives (lines 157 to 160).\<close>

definition scatter_exchange :: "layout \<Rightarrow> nat \<Rightarrow> exchange" where
  "scatter_exchange l n_batch =
     (let x = gather_exchange l n_batch
      in \<lparr>send_counts = recv_counts x, send_offsets = recv_offsets x,
          recv_counts = send_counts x, recv_offsets = send_offsets x\<rparr>)"

definition norm_pos :: "nat \<Rightarrow> int \<Rightarrow> nat" where
  "norm_pos n k = (if k < 0 then nat (k + int n) else nat k)"

text \<open>
  Lines 113 to 167 without MPI (\<open>grid.n_procs <= 1\<close>): the buffer \<open>v_data\<close> after the
  symmetrized orbit values have been accumulated into it, or the error raised before
  \<open>v_data\<close> is touched.
\<close>

definition accumulate_serial ::
  "engine \<Rightarrow> int list list \<Rightarrow> nat \<Rightarrow> complex list list \<Rightarrow> error + complex list list" where
  "accumulate_serial e index n_grid v_data =
     (case mapM (\<lambda>row. mapM (index_select row) index) v_data of
        Inl err \<Rightarrow> Inl err
      | Inr v_orbits \<Rightarrow>
          let v_orbits = map (symmetrize_orbits e) v_orbits;
              zeroed = map (map (\<lambda>z. 0)) v_data;
              ks = map (norm_pos n_grid) (concat index)
          in Inr (map (\<lambda>(row, vo). index_put_acc row ks (concat vo)) (zip zeroed v_orbits)))"

text \<open>
  Lines 113 to 167 with MPI.  \<open>recv1\<close> and \<open>recv2\<close> are what the two exchanges deliver.
  The buffers are flattened row-major: \<open>src_data[k, b]\<close> is at \<open>k * n_batch + b\<close>.
\<close>

definition accumulate_parallel ::
  "engine \<Rightarrow> layout \<Rightarrow> nat \<Rightarrow> nat \<Rightarrow> complex list list
     \<Rightarrow> complex list list \<Rightarrow> complex list list \<Rightarrow> error + complex list list" where
  "accumulate_parallel e l n_batch n_grid v_data recv1 recv2 =
     (case mapM (\<lambda>k. mapM (\<lambda>row. py_nth row k) v_data) (grid_index l) of
        Inl err \<Rightarrow> Inl err
      | Inr src_rows \<Rightarrow>
          let src_data = concat src_rows;
              x1 = gather_exchange l n_batch;
              dest_data = alltoallv_recv (replicate (length (recv_index l) * n_batch) 0)
                            (recv_counts x1) (recv_offsets x1) recv1
          in if length (recv_index l) \<noteq> n_orbits_mine e * n_sym e
             then Inl RuntimeError
             else
               let v_orbits = map (\<lambda>b. map (\<lambda>r. map (\<lambda>s.
                                  dest_data ! (orbit_index l ! (r * n_sym e + s) * n_batch + b))
                                  [0..<n_sym e]) [0..<n_orbits_mine e]) [0..<n_batch];
                   v_orbits = map (symmetrize_orbits e) v_orbits;
                   zeroed = map (map (\<lambda>z. 0)) v_data;
                   dest_data = concat (map (\<lambda>j. map (\<lambda>b. concat (v_orbits ! b) ! (recv_index l ! j))
                                                     [0..<n_batch]) [0..<length (recv_index l)]);
                   x2 = scatter_exchange l n_batch;
                   src_data = alltoallv_recv src_data (recv_counts x2) (recv_offsets x2) recv2;
                   ks = map (norm_pos n_grid) (grid_index l)
               in Inr (map (\<lambda>b. index_put_acc (zeroed ! b) ks
                                     (map (\<lambda>k. src_data ! (k * n_batch + b)) [0..<length ks]))
                           [0..<n_batch]))"

text \<open>
  Lines 169 to 171.  The result is the error raised, if any, and the buffer \<open>v_data\<close> when
  the call ends: an error before line 153 leaves it as it was read, a failure of the final
  product leaves the accumulated values in it.
\<close>

definition finish ::
  "engine \<Rightarrow> nat \<Rightarrow> complex list list \<Rightarrow> error + complex list list
     \<Rightarrow> error option \<times> complex list list" where
  "finish e n_grid v_data a =
     (case a of
        Inl err \<Rightarrow> (Some err, v_data)
      | Inr acc \<Rightarrow>
          (case scale_rows (inv_multiplicity e) n_grid acc of
             Inl err \<Rightarrow> (Some err, acc)
           | Inr res \<Rightarrow> (None, res)))"

definition call_serial ::
  "engine \<Rightarrow> int list list \<Rightarrow> nat \<Rightarrow> nat \<Rightarrow> complex list list
     \<Rightarrow> error option \<times> complex list list" where
  "call_serial e index n_batch n_grid v_data =
     finish e n_grid v_data (accumulate_serial e index n_grid v_data)"

definition call_parallel ::
  "engine \<Rightarrow> layout \<Rightarrow> nat \<Rightarrow> nat \<Rightarrow> complex list list
     \<Rightarrow> complex list list \<Rightarrow> complex list list \<Rightarrow> error option \<times> complex list list" where
  "call_parallel e l n_batch n_grid v_data recv1 recv2 =
     finish e n_grid v_data (accumulate_parallel e l n_batch n_grid v_data recv1 recv2)"

text \<open>
  The caller's field when the call ends with the outcome \<open>r\<close> (the error, if any, and the
  buffer \<open>v_data\<close>).  For a contiguous tensor \<open>v_data\<close> (line 110) is a view that shares the
  storage of \<open>v.data\<close>, so whatever the call leaves in \<open>v_data\<close> is in the caller's field.
  Otherwise \<open>reshape\<close> copies: the caller's field is changed only by line 171, which binds
  \<open>v.data\<close> to a view of the (contiguous) copy, and a call that raises leaves the field as
  it was.
\<close>

definition caller_field :: "field \<Rightarrow> error option \<times> complex list list \<Rightarrow> field" where
  "caller_field v r =
     (if contiguous v then v\<lparr>data := concat (snd r)\<rparr>
      else if fst r = None then v\<lparr>data := concat (snd r), contiguous := True\<rparr>
      else v)"

text \<open>
  \<open>FieldSymmetrizer.__call__\<close>.  The result is the error raised (if any), the engine after
  the call and the caller's field after the call.
\<close>

definition call ::
  "engine \<Rightarrow> field \<Rightarrow> complex list list \<times> complex list list
     \<Rightarrow> error option \<times> engine \<times> field" where
  "call e v recvd =
     (if grid_id (f_grid v) \<noteq> grid_id (e_grid e) then (Some AssertionError, e, v)
      else
        let n_batch = n_batch_of (data_shape v);
            n_grid = n_grid_of (e_grid e)
        in if length (data v) \<noteq> n_batch * n_grid then (Some RuntimeError, e, v)
           else
             let v_data = rows_of n_batch n_grid (data v);
                 r = (if 1 < n_procs (e_grid e)
                      then (case e_layout e of
                              Parallel sp rp gi ri oi \<Rightarrow>
                                call_parallel e (e_layout e) n_batch n_grid v_data
                                  (fst recvd) (snd recvd)
                            | Serial ix \<Rightarrow> (Some AttributeError, v_data))
                      else (case e_layout e of
                              Serial ix \<Rightarrow> call_serial e ix n_batch n_grid v_data
                            | Parallel sp rp gi ri oi \<Rightarrow> (Some AttributeError, v_data)))
             in (fst r, e, caller_field v r))"

text \<open>A sequence of calls on the same engine and field, stopping at the first error.\<close>

fun call_seq ::
  "engine \<Rightarrow> field \<Rightarrow> (complex list list \<times> complex list list) list
     \<Rightarrow> error option \<times> engine \<times> field" where
  "call_seq e v [] = (None, e, v)"
| "call_seq e v (r # rs) =
     (case call e v r of
        (None, e', v') \<Rightarrow> call_seq e' v' rs
      | (Some err, e', v') \<Rightarrow> (Some err, e', v'))"

text \<open>A batch of \<open>nb\<close> rows of \<open>ng\<close> grid values each.\<close>

definition uniform :: "nat \<Rightarrow> nat \<Rightarrow> 'a list list \<Rightarrow> bool" where
  "uniform nb ng rows = (length rows = nb \<and> (\<forall>r \<in> set rows. length r = ng))"

section \<open>Reading the multiplicity table\<close>

text \<open>The entries of the global table \<open>index\<close> of the constructor (one per orbit and
  operation), and the global grid index held at position \<open>l\<close> of the local buffer: with
  MPI the process holds the slab \<open>[i_start, i_stop)\<close> of the last half-space axis.\<close>

definition orbit_slots :: "grid \<Rightarrow> int list" where
  "orbit_slots g =
     (case index_select (mesh_H g) (orbit_keys g) of
        Inl err \<Rightarrow> []
      | Inr iH_reduced \<Rightarrow> concat (index_table g iH_reduced))"

definition global_index :: "grid \<Rightarrow> nat \<Rightarrow> nat" where
  "global_index g l =
     (if 1 < n_procs g
      then (let w = i_stop (split2H g) - i_start (split2H g)
            in (l div w) * nat (z3 (shapeH g)) + i_start (split2H g) + l mod w)
      else l)"

section \<open>One orbit and one batch row\<close>








section \<open>Example grids\<close>

text \<open>
  Modelled from the spec: \<open>Grid.get_mesh\<close> is not part of the sources.  The global
  half-space mesh lists, in row-major order over \<open>shapeH\<close>, the integer frequency vector of
  every stored point: the first two components centred around zero, the last one in
  \<open>[0, shape[2] // 2]\<close>.
\<close>

definition centred :: "int \<Rightarrow> int \<Rightarrow> int" where
  "centred i s = (if i \<le> s div 2 then i else i - s)"

fun half_mesh :: "vec3 \<Rightarrow> vec3 list" where
  "half_mesh (s0, s1, s2) =
     concat (map (\<lambda>a. concat (map (\<lambda>b. map (\<lambda>c. (centred a s0, centred b s1, c)) [0..s2 div 2])
                                     [0..s1 - 1])) [0..s0 - 1])"

definition identity :: mat3 where
  "identity = ((1, 0, 0), (0, 1, 0), (0, 0, 1))"

definition swap_xy :: mat3 where
  "swap_xy = ((0, 1, 0), (1, 0, 0), (0, 0, 1))"

definition swap_yz :: mat3 where
  "swap_yz = ((1, 0, 0), (0, 0, 1), (0, 1, 0))"



text \<open>A grid of the given shape on a single process, with the given rotations and zero
  translations.\<close>

fun serial_grid :: "vec3 \<Rightarrow> mat3 list \<Rightarrow> grid" where
  "serial_grid (s0, s1, s2) rs =
     \<lparr>grid_id = 0, shape = (s0, s1, s2), shapeH = (s0, s1, s2 div 2 + 1),
      shapeH_mine = (s0, s1, s2 div 2 + 1), n_procs = 1, i_proc = 0,
      rot = rs, trans = map (\<lambda>r. (0, 0, 0)) rs, mesh_H = half_mesh (s0, s1, s2),
      split2H = \<lparr>td_n_tot = nat (s2 div 2 + 1), td_n_procs = 1, td_i_proc = 0\<rparr>\<rparr>"

text \<open>A 2 x 2 x 1 grid with the identity and the exchange of the first two axes, the engine
  the constructor builds for it, and a field on it.\<close>

definition grid_2x2 :: grid where
  "grid_2x2 = serial_grid (2, 2, 1) [identity, swap_xy]"

definition engine_2x2 :: engine where
  "engine_2x2 =
     \<lparr>e_grid = grid_2x2, e_layout = Serial [[0, 0], [1, 2], [3, 3]],
      imag_scale = [[True, True], [True, True], [True, True]],
      phase = [[1, 1], [1, 1], [1, 1]],
      n_orbits_mine = 3, n_sym = 2, inv_multiplicity = [1 / 4, 1 / 2, 1 / 2, 1 / 4]\<rparr>"

definition field_2x2 :: field where
  "field_2x2 = \<lparr>f_grid = grid_2x2, data_shape = [2, 2, 1], data = [1, 2, 3, 4],
                 contiguous = True\<rparr>"

definition field_other_grid :: field where
  "field_other_grid = field_2x2\<lparr>f_grid := grid_2x2\<lparr>grid_id := 1\<rparr>\<rparr>"

text \<open>A 2 x 2 x 2 grid divided over two processes along the last half-space axis, seen from
  process 0, with the engine the constructor builds there.\<close>

definition grid_par :: grid where
  "grid_par =
     \<lparr>grid_id = 0, shape = (2, 2, 2), shapeH = (2, 2, 2), shapeH_mine = (2, 2, 1),
      n_procs = 2, i_proc = 0, rot = [identity, swap_xy],
      trans = [(0, 0, 0), (0, 0, 0)], mesh_H = half_mesh (2, 2, 2),
      split2H = \<lparr>td_n_tot = 2, td_n_procs = 2, td_i_proc = 0\<rparr>\<rparr>"

definition engine_par :: engine where
  "engine_par =
     \<lparr>e_grid = grid_par,
      e_layout = Parallel [0, 4, 6] [0, 4, 6] [0, 0, 1, 2, 3, 3] [0, 1, 4, 5, 2, 3]
                   [0, 1, 4, 5, 2, 3],
      imag_scale = [[True, True], [True, True], [True, True]],
      phase = [[1, 1], [1, 1], [1, 1]],
      n_orbits_mine = 3, n_sym = 2, inv_multiplicity = [1 / 4, 1 / 2, 1 / 2, 1 / 4]\<rparr>"

text \<open>The same grid seen from process 0 when the grid partition \<open>split2H\<close> was computed for
  a single worker although the grid runs on two: the engine the constructor builds, and a
  field.\<close>

definition grid_mismatch :: grid where
  "grid_mismatch =
     \<lparr>grid_id = 0, shape = (2, 2, 2), shapeH = (2, 2, 2), shapeH_mine = (2, 2, 2),
      n_procs = 2, i_proc = 0, rot = [identity, swap_xy],
      trans = [(0, 0, 0), (0, 0, 0)], mesh_H = half_mesh (2, 2, 2),
      split2H = \<lparr>td_n_tot = 2, td_n_procs = 1, td_i_proc = 0\<rparr>\<rparr>"

definition engine_mismatch :: engine where
  "engine_mismatch =
     \<lparr>e_grid = grid_mismatch,
      e_layout = Parallel [0, 6, 12] [0, 6, 6] [0, 0, 1, 1, 2, 4, 3, 5, 6, 6, 7, 7]
                   [0, 1, 2, 3, 4, 5] [0, 1, 2, 3, 4, 5],
      imag_scale = [[True, True], [True, True], [True, True]],
      phase = [[1, 1], [1, 1], [1, 1]],
      n_orbits_mine = 3, n_sym = 2,
      inv_multiplicity = [1 / 4, 1 / 4, 1 / 2, 1 / 2, 1 / 2, 1 / 2, 1 / 4, 1 / 4]\<rparr>"

definition field_mismatch :: field where
  "field_mismatch =
     \<lparr>f_grid = grid_mismatch, data_shape = [2, 2, 2], data = [1, 2, 3, 4, 5, 6, 7, 8],
      contiguous = True\<rparr>"

text \<open>A 3 x 3 x 3 grid with the identity and the mirror that exchanges the last two axes (a
  group of order two that maps the grid to itself), the engine the constructor builds for
  it, and a field on it.\<close>

definition grid_cubic3 :: grid where
  "grid_cubic3 = serial_grid (3, 3, 3) [identity, swap_yz]"

definition engine_cubic3 :: engine where
  "engine_cubic3 =
     \<lparr>e_grid = grid_cubic3,
      e_layout = Serial [[0, 0], [1, 2], [3, 3], [5, 5], [6, 6], [7, 8], [9, 9], [10, 13],
                         [11, 17], [12, 12], [13, 14], [15, 15]],
      imag_scale = [[True, True], [True, True], [True, True], [True, True], [True, True],
                    [True, True], [True, True], [True, True], [True, True], [True, True],
                    [True, True], [True, True]],
      phase = [[1, 1], [1, 1], [1, 1], [1, 1], [1, 1], [1, 1], [1, 1], [1, 1],
               [1, 1], [1, 1], [1, 1], [1, 1]],
      n_orbits_mine = 12, n_sym = 2,
      inv_multiplicity = [1 / 4, 1 / 2, 1 / 2, 1 / 4, 1 / 4, 1 / 4, 1 / 2, 1 / 2, 1 / 4, 1 / 2,
                          1 / 2, 1 / 4, 1 / 4, 1 / 2, 1 / 4, 1 / 2]\<rparr>"

definition field_cubic3 :: field where
  "field_cubic3 = \<lparr>f_grid = grid_cubic3, data_shape = [3, 3, 2], data = replicate 18 1,
                    contiguous = True\<rparr>"






section \<open>Properties of the half-space reduction\<close>

lemma flat_index_bounds_raw:
  fixes a b c h0 h1 h2 :: int
  assumes "0 \<le> a" "a < h0" "0 \<le> b" "b < h1" "0 \<le> c" "c < h2"
  shows "0 \<le> a * (h1 * h2) + b * h2 + c" and "a * (h1 * h2) + b * h2 + c < h0 * h1 * h2"
proof -
  show "0 \<le> a * (h1 * h2) + b * h2 + c"
    using assms by (intro add_nonneg_nonneg mult_nonneg_nonneg) auto
  have "b * h2 + c < h1 * h2"
  proof -
    have "b * h2 + c < b * h2 + h2" using assms by simp
    also have "\<dots> = (b + 1) * h2" by (simp add: algebra_simps)
    also have "\<dots> \<le> h1 * h2" using assms by (intro mult_right_mono) auto
    finally show ?thesis .
  qed
  then have "a * (h1 * h2) + b * h2 + c < a * (h1 * h2) + h1 * h2" by simp
  also have "\<dots> = (a + 1) * (h1 * h2)" by (simp add: algebra_simps)
  also have "\<dots> \<le> h0 * (h1 * h2)"
    using assms by (intro mult_right_mono mult_nonneg_nonneg) auto
  finally show "a * (h1 * h2) + b * h2 + c < h0 * h1 * h2" by (simp add: mult.assoc)
qed

lemma flat_index_bounds:
  assumes "0 \<le> a" "a < h0" "0 \<le> b" "b < h1" "0 \<le> c" "c < h2"
  shows "0 \<le> dot3 (a, b, c) (strideH (h0, h1, h2))
       \<and> dot3 (a, b, c) (strideH (h0, h1, h2)) < prod3 (h0, h1, h2)"
  using flat_index_bounds_raw[OF assms] by simp

lemma get_index_reduction:
  assumes "shapes_ok (s0, s1, s2) sH"
  shows "snd (get_index (s0, s1, s2) sH (a, b, c)) = (c mod s2 > s2 div 2)
       \<and> fst (get_index (s0, s1, s2) sH (a, b, c)) =
           (if c mod s2 > s2 div 2
            then dot3 ((- (a mod s0)) mod s0, (- (b mod s1)) mod s1, (- (c mod s2)) mod s2)
                      (strideH sH)
            else dot3 (a mod s0, b mod s1, c mod s2) (strideH sH))
       \<and> 0 \<le> fst (get_index (s0, s1, s2) sH (a, b, c))
       \<and> fst (get_index (s0, s1, s2) sH (a, b, c)) < prod3 sH"
proof -
  from assms have pos: "0 < s0" "0 < s1" "0 < s2"
    and sh: "sH = (s0, s1, s2 div 2 + 1)" by simp_all
  let ?h2 = "s2 div 2 + 1"
  have flag: "snd (get_index (s0, s1, s2) sH (a, b, c)) = (c mod s2 > s2 div 2)"
    by (auto simp: get_index_def Let_def sh)
  have val: "fst (get_index (s0, s1, s2) sH (a, b, c)) =
           (if c mod s2 > s2 div 2
            then dot3 ((- (a mod s0)) mod s0, (- (b mod s1)) mod s1, (- (c mod s2)) mod s2)
                      (strideH sH)
            else dot3 (a mod s0, b mod s1, c mod s2) (strideH sH))"
    by (auto simp: get_index_def Let_def sh)
  have rng: "0 \<le> fst (get_index (s0, s1, s2) sH (a, b, c))
       \<and> fst (get_index (s0, s1, s2) sH (a, b, c)) < prod3 sH"
  proof (cases "c mod s2 > s2 div 2")
    case True
    have c1: "0 \<le> (- (c mod s2)) mod s2" using pos by simp
    have "c mod s2 < s2" using pos by simp
    moreover have "0 \<le> s2 div 2" using pos by simp
    with True have "0 < c mod s2" by linarith
    ultimately have neg: "(- (c mod s2)) mod s2 = s2 - c mod s2"
      by (simp add: zmod_zminus1_eq_if)
    have "s2 \<le> 2 * (s2 div 2) + 1" by presburger
    with True neg have c2: "(- (c mod s2)) mod s2 < ?h2" by linarith
    have b: "0 \<le> (- (a mod s0)) mod s0" "(- (a mod s0)) mod s0 < s0"
      "0 \<le> (- (b mod s1)) mod s1" "(- (b mod s1)) mod s1 < s1"
      using pos by simp_all
    have "fst (get_index (s0, s1, s2) sH (a, b, c)) =
        dot3 ((- (a mod s0)) mod s0, (- (b mod s1)) mod s1, (- (c mod s2)) mod s2)
          (strideH sH)"
      using True by (simp only: val if_True)
    with flat_index_bounds[OF b c1 c2] show ?thesis
      by (simp only: sh)
  next
    case False
    then have c2: "c mod s2 < ?h2" by linarith
    have c1: "0 \<le> c mod s2" using pos by simp
    have b: "0 \<le> a mod s0" "a mod s0 < s0" "0 \<le> b mod s1" "b mod s1 < s1"
      using pos by simp_all
    have "fst (get_index (s0, s1, s2) sH (a, b, c)) =
        dot3 (a mod s0, b mod s1, c mod s2) (strideH sH)"
      using False by (simp only: val if_False)
    with flat_index_bounds[OF b c1 c2] show ?thesis
      by (simp only: sh)
  qed
  from flag val rng show ?thesis by blast
qed

text \<open>
  C2.  For every integer index vector \<open>(a, b, c)\<close>, \<open>get_index\<close> first wraps each component
  modulo the grid period.  Conjugation is flagged exactly when the wrapped last component
  exceeds the half-space bound \<open>shape[2] // 2\<close> (it is at least \<open>shapeH[2]\<close>); exactly then
  the whole wrapped vector is negated modulo the period.  The flattened index that is
  returned lies in \<open>[0, prod(shapeH))\<close>.
\<close>

theorem get_index_half_space:
  assumes "shapes_ok (s0, s1, s2) sH"
  shows "snd (get_index (s0, s1, s2) sH (a, b, c)) = (c mod s2 > s2 div 2)
       \<and> fst (get_index (s0, s1, s2) sH (a, b, c)) =
           (if c mod s2 > s2 div 2
            then dot3 ((- (a mod s0)) mod s0, (- (b mod s1)) mod s1, (- (c mod s2)) mod s2)
                      (strideH sH)
            else dot3 (a mod s0, b mod s1, c mod s2) (strideH sH))
       \<and> 0 \<le> fst (get_index (s0, s1, s2) sH (a, b, c))
       \<and> fst (get_index (s0, s1, s2) sH (a, b, c)) < prod3 sH"
  using get_index_reduction[OF assms] .

theorem get_index_half_space_witness:
  "shapes_ok (4, 4, 4) (4, 4, 3)
   \<and> get_index (4, 4, 4) (4, 4, 3) (1, - 1, 3) = (3 * 12 + 1 * 3 + 1, True)
   \<and> get_index (4, 4, 4) (4, 4, 3) (1, - 1, 2) = (1 * 12 + 3 * 3 + 2, False)"
proof -
  have h: "shapes_ok (4, 4, 4) (4, 4, 3)" by simp
  from get_index_half_space[OF h, of 1 "- 1" 3] get_index_half_space[OF h, of 1 "- 1" 2]
  show ?thesis by (simp add: get_index_def)
qed

section \<open>Auxiliary facts about indexing and prefix sums\<close>

lemma mapM_Inr_length: "mapM f xs = Inr ys \<Longrightarrow> length ys = length xs"
  by (induction xs arbitrary: ys) (auto split: sum.splits)

lemma mapM_Inr_nth: "mapM f xs = Inr ys \<Longrightarrow> i < length xs \<Longrightarrow> f (xs ! i) = Inr (ys ! i)"
proof (induction xs arbitrary: ys i)
  case Nil
  then show ?case by simp
next
  case (Cons x xs)
  then show ?case by (cases i) (auto split: sum.splits)
qed

lemma mapM_Inl: "mapM f xs = Inl err \<Longrightarrow> \<exists>x \<in> set xs. f x = Inl err"
  by (induction xs) (auto split: sum.splits)

lemma mapM_all_Inr: "(\<And>x. x \<in> set xs \<Longrightarrow> f x = Inr (h x)) \<Longrightarrow> mapM f xs = Inr (map h xs)"
  by (induction xs) auto

lemma py_pos_Inl: "py_pos n k = Inl err \<Longrightarrow> err = IndexError"
  by (auto simp: py_pos_def split: if_splits)

lemma py_pos_Inr: "py_pos n k = Inr i \<Longrightarrow> i < n"
  by (auto simp: py_pos_def split: if_splits)

lemma py_nth_Inl: "py_nth xs k = Inl err \<Longrightarrow> err = IndexError"
  by (auto simp: py_nth_def dest: py_pos_Inl split: sum.splits)

lemma py_nth_Inr: "py_nth xs k = Inr y \<Longrightarrow> y \<in> set xs"
  by (auto simp: py_nth_def dest: py_pos_Inr split: sum.splits)

lemma py_nth_nonneg: "0 \<le> k \<Longrightarrow> k < int (length xs) \<Longrightarrow> py_nth xs k = Inr (xs ! nat k)"
  by (simp add: py_nth_def py_pos_def)

lemma index_select_Inl: "index_select xs ks = Inl err \<Longrightarrow> err = IndexError"
  unfolding index_select_def by (auto dest!: mapM_Inl py_nth_Inl)

lemma index_select_Inr_set: "index_select xs ks = Inr ys \<Longrightarrow> set ys \<subseteq> set xs"
proof
  fix y assume a: "index_select xs ks = Inr ys" "y \<in> set ys"
  then obtain i where i: "i < length ys" "ys ! i = y" by (auto simp: in_set_conv_nth)
  from a(1) have l: "length ys = length ks" unfolding index_select_def by (rule mapM_Inr_length)
  from a(1) i l have "py_nth xs (ks ! i) = Inr y"
    unfolding index_select_def using mapM_Inr_nth by fastforce
  then show "y \<in> set xs" by (rule py_nth_Inr)
qed

lemma index_select_Inr_length: "index_select xs ks = Inr ys \<Longrightarrow> length ys = length ks"
  unfolding index_select_def by (rule mapM_Inr_length)

lemma diff_length: "length (diff xs) = length xs - 1"
  by (simp add: diff_def)

lemma diff_nth: "Suc p < length xs \<Longrightarrow> diff xs ! p = xs ! Suc p - xs ! p"
  by (simp add: diff_def nth_tl)

lemma sum_take_diff: "p < length xs \<Longrightarrow> sum_list (take p (diff xs)) = xs ! p - xs ! 0"
proof (induction p)
  case 0
  then show ?case by simp
next
  case (Suc p)
  then have "take (Suc p) (diff xs) = take p (diff xs) @ [diff xs ! p]"
    by (simp add: take_Suc_conv_app_nth diff_length)
  with Suc show ?case by (simp add: diff_nth)
qed

lemma sum_take_scaled:
  assumes "p < length xs"
  shows "sum_list (take p (map (\<lambda>c. c * n) (diff xs))) = (xs ! p - xs ! 0) * (n::int)"
proof -
  have "sum_list (take p (map (\<lambda>c. c * n) (diff xs))) = sum_list (take p (diff xs)) * n"
    by (simp add: take_map sum_list_mult_const)
  with assms show ?thesis by (simp add: sum_take_diff)
qed

lemma searchsorted_nonneg_0: "\<forall>x \<in> set seq. 0 \<le> x \<Longrightarrow> searchsorted seq 0 = 0"
  by (cases seq) (auto simp: searchsorted_def)

lemma prefix_offsets:
  assumes "Suc p < length prev" "prev ! 0 = 0"
  shows "map (\<lambda>c. c * n) (butlast prev) ! p = sum_list (take p (map (\<lambda>c. c * n) (diff prev)))"
proof -
  from assms have "p < length prev" by simp
  then have "sum_list (take p (map (\<lambda>c. c * n) (diff prev))) = prev ! p * n"
    using assms(2) by (simp add: sum_take_scaled)
  moreover have pb: "p < length (butlast prev)" using assms(1) by simp
  then have "map (\<lambda>c. c * n) (butlast prev) ! p = prev ! p * n"
    using nth_butlast[OF pb] by simp
  ultimately show ?thesis by simp
qed

section \<open>Shape of the data through a call\<close>

lemma rows_of_length: "length (rows_of nb ng xs) = nb"
  by (simp add: rows_of_def)

lemma rows_of_row_length:
  "length xs = nb * ng \<Longrightarrow> r \<in> set (rows_of nb ng xs) \<Longrightarrow> length r = ng"
proof -
  assume a: "length xs = nb * ng" "r \<in> set (rows_of nb ng xs)"
  then obtain b where b: "b < nb" "r = take ng (drop (b * ng) xs)"
    by (auto simp: rows_of_def)
  have "(b + 1) * ng \<le> nb * ng" using b(1) by (intro mult_le_mono1) simp
  then have "ng \<le> nb * ng - b * ng" by (simp add: algebra_simps)
  with a b show ?thesis by simp
qed


lemma length_concat_uniform:
  "\<forall>r \<in> set xss. length r = n \<Longrightarrow> length (concat xss) = length xss * n"
  by (induction xss) auto

lemma index_put_acc_length: "length (index_put_acc buf ks ws) = length buf"
  by (simp add: index_put_acc_def)

lemma scale_rows_shape:
  assumes "scale_rows ms ng acc = Inr res" "\<forall>r \<in> set acc. length r = ng"
  shows "length res = length acc \<and> (\<forall>r \<in> set res. length r = ng)"
  using assms by (auto simp: scale_rows_def split: if_splits)

lemma scale_rows_Inl: "scale_rows ms ng acc = Inl err \<Longrightarrow> err = RuntimeError"
  by (auto simp: scale_rows_def split: if_splits)

lemma accumulate_serial_shape:
  assumes "uniform nb ng v_data" "accumulate_serial e index ng v_data = Inr acc"
  shows "uniform nb ng acc"
proof -
  from assms(2) obtain v_orbits where
    g: "mapM (\<lambda>row. mapM (index_select row) index) v_data = Inr v_orbits"
    by (auto simp: accumulate_serial_def split: sum.splits)
  have lv: "length v_orbits = length v_data" using g by (rule mapM_Inr_length)
  from assms(2) g have "acc = map (\<lambda>(row, vo). index_put_acc row (map (norm_pos ng) (concat index))
           (concat vo)) (zip (map (map (\<lambda>z. 0)) v_data) (map (symmetrize_orbits e) v_orbits))"
    by (simp add: accumulate_serial_def Let_def)
  then show ?thesis
    using assms(1) lv by (auto simp: uniform_def index_put_acc_length dest!: set_zip_leftD)
qed

lemma accumulate_parallel_shape:
  assumes "uniform nb ng v_data" "accumulate_parallel e l nb ng v_data r1 r2 = Inr acc"
  shows "uniform nb ng acc"
proof (cases "mapM (\<lambda>k. mapM (\<lambda>row. py_nth row k) v_data) (grid_index l)")
  case (Inl err)
  with assms(2) show ?thesis by (simp add: accumulate_parallel_def)
next
  case (Inr src_rows)
  show ?thesis
  proof (cases "length (recv_index l) \<noteq> n_orbits_mine e * n_sym e")
    case True
    with Inr assms(2) show ?thesis by (simp add: accumulate_parallel_def Let_def)
  next
    case False
    have u: "uniform nb ng (map (\<lambda>b. index_put_acc (map (map (\<lambda>z. 0)) v_data ! b) ks (f b))
                              [0..<nb])" for ks f
      using assms(1) by (auto simp: uniform_def index_put_acc_length)
    let ?src = "alltoallv_recv (concat src_rows) (recv_counts (scatter_exchange l nb))
                  (recv_offsets (scatter_exchange l nb)) r2"
    let ?ks = "map (norm_pos ng) (grid_index l)"
    from Inr False assms(2)
    have "acc = map (\<lambda>b. index_put_acc (map (map (\<lambda>z. 0)) v_data ! b) ?ks
                          (map (\<lambda>k. ?src ! (k * nb + b)) [0..<length ?ks])) [0..<nb]"
      by (simp add: accumulate_parallel_def Let_def)
    then show ?thesis by (simp only: u)
  qed
qed

lemma finish_shape:
  assumes "uniform nb ng v_data" "\<And>acc. a = Inr acc \<Longrightarrow> uniform nb ng acc"
  shows "uniform nb ng (snd (finish e ng v_data a))"
proof (cases a)
  case (Inl err)
  with assms(1) show ?thesis by (simp add: finish_def)
next
  case (Inr acc)
  from assms(2)[OF Inr] have u: "uniform nb ng acc" .
  show ?thesis
  proof (cases "scale_rows (inv_multiplicity e) ng acc")
    case (Inl err)
    with Inr u show ?thesis by (simp add: finish_def)
  next
    case r: (Inr res)
    from scale_rows_shape[OF r] u have "uniform nb ng res" by (simp add: uniform_def)
    with Inr r show ?thesis by (simp add: finish_def)
  qed
qed

lemma finish_error:
  assumes "fst (finish e ng v_data a) = Some err"
  shows "a = Inl err \<or> err = RuntimeError"
  using assms by (auto simp: finish_def split: sum.splits dest: scale_rows_Inl)

lemma finish_completes:
  assumes "a = Inr acc" "length (inv_multiplicity e) = ng"
  shows "finish e ng v_data a =
     (None, map (\<lambda>row. map (\<lambda>(m, z). z * of_real m) (zip (inv_multiplicity e) row)) acc)"
  using assms by (simp add: finish_def scale_rows_def)

lemma call_serial_shape:
  assumes "uniform nb ng v_data"
  shows "uniform nb ng (snd (call_serial e index nb ng v_data))"
  unfolding call_serial_def
  using assms accumulate_serial_shape[OF assms] by (rule finish_shape)

lemma call_parallel_shape:
  assumes "uniform nb ng v_data"
  shows "uniform nb ng (snd (call_parallel e l nb ng v_data r1 r2))"
  unfolding call_parallel_def
  using assms accumulate_parallel_shape[OF assms] by (rule finish_shape)

lemma uniform_concat_length:
  assumes "uniform nb ng rows"
  shows "length (concat rows) = nb * ng"
proof -
  from assms have a: "\<forall>r \<in> set rows. length r = ng" and b: "length rows = nb"
    by (simp_all add: uniform_def)
  from length_concat_uniform[OF a] b show ?thesis by (simp only:)
qed

lemma caller_field_contiguous:
  "contiguous v \<Longrightarrow> caller_field v r = v\<lparr>data := concat (snd r)\<rparr>"
  by (simp add: caller_field_def)




lemma call_frame:
  assumes "call e v r = (err, e', v')"
  shows "e' = e \<and> f_grid v' = f_grid v \<and> data_shape v' = data_shape v
         \<and> length (data v') = length (data v)"
proof (cases "grid_id (f_grid v) \<noteq> grid_id (e_grid e)
              \<or> length (data v) \<noteq> n_batch_of (data_shape v) * n_grid_of (e_grid e)")
  case True
  with assms show ?thesis by (auto simp: call_def Let_def split: if_splits)
next
  case False
  let ?nb = "n_batch_of (data_shape v)" and ?ng = "n_grid_of (e_grid e)"
  let ?vd = "rows_of ?nb ?ng (data v)"
  from False have len: "length (data v) = ?nb * ?ng" by simp
  have u: "uniform ?nb ?ng ?vd"
    using rows_of_row_length[OF len] by (simp add: uniform_def rows_of_length)
  have shape: "\<And>rows. uniform ?nb ?ng rows \<Longrightarrow> length (concat rows) = length (data v)"
    using len uniform_concat_length by (simp only:)
  obtain q where q: "call e v r = (fst q, e, caller_field v q)"
    and uq: "uniform ?nb ?ng (snd q)"
  proof (cases "e_layout e")
    case (Serial ix)
    show ?thesis
    proof (cases "1 < n_procs (e_grid e)")
      case True
      with Serial False u show ?thesis
        by (intro that[of "(Some AttributeError, ?vd)"]) (simp_all add: call_def Let_def)
    next
      case np: False
      with Serial False call_serial_shape[OF u] show ?thesis
        by (intro that[of "call_serial e ix ?nb ?ng ?vd"]) (simp_all add: call_def Let_def)
    qed
  next
    case (Parallel sp rp gi ri oi)
    show ?thesis
    proof (cases "1 < n_procs (e_grid e)")
      case True
      with Parallel False call_parallel_shape[OF u] show ?thesis
        by (intro that[of "call_parallel e (e_layout e) ?nb ?ng ?vd (fst r) (snd r)"])
           (simp_all add: call_def Let_def)
    next
      case np: False
      with Parallel False u show ?thesis
        by (intro that[of "(Some AttributeError, ?vd)"]) (simp_all add: call_def Let_def)
    qed
  qed
  from q assms shape[OF uq] show ?thesis by (auto simp: caller_field_def)
qed

section \<open>The result of the constructor\<close>

lemma init_serial_eval:
  assumes "index_select (mesh_H g) (orbit_keys g) = Inr iH_reduced"
    and "\<not> 1 < n_procs g" and "rot g \<noteq> []"
  shows "init g =
     Inr \<lparr>e_grid = g, e_layout = Serial (index_table g iH_reduced),
          imag_scale = map (map scale_of) (conj_table g iH_reduced),
          phase = phase_table g iH_reduced,
          n_orbits_mine = length (conj_table g iH_reduced),
          n_sym = length (rot g),
          inv_multiplicity = map (\<lambda>m. (1 / real (length (rot g))) / of_int m)
                                 (unique_counts (concat (index_table g iH_reduced)))\<rparr>"
  using assms by (simp add: init_def Let_def)

lemma init_parallel_eval:
  assumes "index_select (mesh_H g) (orbit_keys g) = Inr iH_reduced"
    and "mapM (index_select (mesh_H g)) (index_table g iH_reduced) = Inr iH_index"
    and "local_multiplicity (shapeH g) (i_start (split2H g)) (i_stop (split2H g))
           (unique_counts (concat (index_table g iH_reduced))) = Inr multiplicity_mine"
    and "1 < n_procs g" and "rot g \<noteq> []"
    and "div_dest = \<lparr>td_n_tot = length iH_reduced, td_n_procs = n_procs g,
                       td_i_proc = i_proc g\<rparr>"
  shows "init g =
     Inr \<lparr>e_grid = g, e_layout = build_layout g div_dest iH_index,
          imag_scale = map (map scale_of)
                         (slice (i_start div_dest) (i_stop div_dest) (conj_table g iH_reduced)),
          phase = phase_table g (slice (i_start div_dest) (i_stop div_dest) iH_reduced),
          n_orbits_mine =
            length (slice (i_start div_dest) (i_stop div_dest) (conj_table g iH_reduced)),
          n_sym = length (rot g),
          inv_multiplicity = map (\<lambda>m. (1 / real (length (rot g))) / of_int m)
                                 multiplicity_mine\<rparr>"
  using assms by (simp add: init_def Let_def)

section \<open>The constructor and a call on the 2 x 2 x 1 grid\<close>

lemma grid_2x2_fields:
  "n_procs grid_2x2 = 1" "rot grid_2x2 = [identity, swap_xy]"
  "trans grid_2x2 = [(0, 0, 0), (0, 0, 0)]" "shapeH_mine grid_2x2 = (2, 2, 1)"
  "shape grid_2x2 = (2, 2, 1)" "shapeH grid_2x2 = (2, 2, 1)" "grid_id grid_2x2 = 0"
  by (simp_all add: grid_2x2_def)

lemma grid_2x2_mesh: "mesh_H grid_2x2 = [(0, 0, 0), (0, 1, 0), (1, 0, 0), (1, 1, 0)]"
  by code_simp

lemma grid_2x2_keys: "orbit_keys grid_2x2 = [0, 1, 3]"
  by code_simp

lemma grid_2x2_reduced:
  "index_select (mesh_H grid_2x2) [0, 1, 3] = Inr [(0, 0, 0), (0, 1, 0), (1, 1, 0)]"
  by code_simp

lemma grid_2x2_index:
  "index_table grid_2x2 [(0, 0, 0), (0, 1, 0), (1, 1, 0)] = [[0, 0], [1, 2], [3, 3]]"
  by code_simp

lemma grid_2x2_conj:
  "conj_table grid_2x2 [(0, 0, 0), (0, 1, 0), (1, 1, 0)] =
     [[False, False], [False, False], [False, False]]"
  by code_simp

lemma grid_2x2_counts: "unique_counts [0, 0, 1, 2, 3, 3] = [2, 1, 1, 2]"
  by code_simp

lemma init_grid_2x2: "init grid_2x2 = Inr engine_2x2"
proof -
  have k: "index_select (mesh_H grid_2x2) (orbit_keys grid_2x2) =
      Inr [(0, 0, 0), (0, 1, 0), (1, 1, 0)]"
    by (simp only: grid_2x2_keys grid_2x2_reduced)
  have np: "\<not> 1 < n_procs grid_2x2" "rot grid_2x2 \<noteq> []" by (simp_all add: grid_2x2_fields)
  have c: "concat [[0, 0], [1, 2], [3, 3]] = [0, 0, 1, 2, 3, 3 :: int]" by simp
  show ?thesis
    unfolding init_serial_eval[OF k np] grid_2x2_index grid_2x2_conj c grid_2x2_counts
    by (simp add: grid_2x2_fields phase_table_def scale_of_def to_bool_def engine_2x2_def)
qed

lemma gather_2x2:
  "mapM (\<lambda>row. mapM (index_select row) [[0, 0], [1, 2], [3, 3]]) [[1, 2, 3, 4 :: complex]] =
     Inr [[[1, 1], [2, 3], [4, 4]]]"
  by (simp add: index_select_def py_nth_def py_pos_def)

lemma symmetrize_2x2:
  "symmetrize_orbits engine_2x2 [[1, 1], [2, 3], [4, 4]] = [[2, 2], [5, 5], [8, 8]]"
  by (simp add: symmetrize_orbits_def conjugate_def perform_def engine_2x2_def conj_slot_def
      complex_eq_iff)

lemma accumulate_2x2:
  "index_put_acc [0, 0, 0, 0] [0, 0, Suc 0, 2, 3, 3] [2, 2, 5, 5, 8, 8] = [4, 5, 5, 16]"
  by (simp add: index_put_acc_def upt_rec)

lemma call_2x2:
  "call engine_2x2 field_2x2 ([], []) =
     (None, engine_2x2, field_2x2\<lparr>data := [1, 5 / 2, 5 / 2, 4]\<rparr>)"
proof -
  have nb: "n_batch_of (data_shape field_2x2) = Suc 0"
    by (simp add: n_batch_of_def field_2x2_def)
  have ng: "n_grid_of (e_grid engine_2x2) = 4"
    by (simp add: n_grid_of_def engine_2x2_def grid_2x2_fields)
  have rows: "rows_of (Suc 0) 4 (data field_2x2) = [[1, 2, 3, 4]]"
    by (simp add: rows_of_def field_2x2_def)
  have im: "inv_multiplicity engine_2x2 = [1 / 4, 1 / 2, 1 / 2, 1 / 4]"
    by (simp add: engine_2x2_def)
  have ac: "accumulate_serial engine_2x2 [[0, 0], [1, 2], [3, 3]] 4 [[1, 2, 3, 4]] =
      Inr [[4, 5, 5, 16]]"
    unfolding accumulate_serial_def gather_2x2
    by (simp add: symmetrize_2x2 norm_pos_def accumulate_2x2 Let_def)
  have cs: "call_serial engine_2x2 [[0, 0], [1, 2], [3, 3]] (Suc 0) 4 [[1, 2, 3, 4]] =
      (None, [[1, 5 / 2, 5 / 2, 4]])"
    unfolding call_serial_def ac by (simp add: finish_def scale_rows_def im)
  have l: "e_layout engine_2x2 = Serial [[0, 0], [1, 2], [3, 3]]"
    "n_procs (e_grid engine_2x2) = 1"
    "grid_id (f_grid field_2x2) = grid_id (e_grid engine_2x2)" "length (data field_2x2) = 4"
    by (simp_all add: engine_2x2_def field_2x2_def grid_2x2_fields)
  have c: "contiguous field_2x2" by (simp add: field_2x2_def)
  show ?thesis
    by (simp add: call_def nb ng rows l cs caller_field_contiguous[OF c])
qed

section \<open>The constructor on the two-process grid\<close>

lemma grid_par_fields:
  "n_procs grid_par = 2" "i_proc grid_par = 0" "rot grid_par = [identity, swap_xy]"
  "trans grid_par = [(0, 0, 0), (0, 0, 0)]" "shapeH_mine grid_par = (2, 2, 1)"
  "shape grid_par = (2, 2, 2)" "shapeH grid_par = (2, 2, 2)" "grid_id grid_par = 0"
  "split2H grid_par = \<lparr>td_n_tot = 2, td_n_procs = 2, td_i_proc = 0\<rparr>"
  by (simp_all add: grid_par_def)

lemma grid_par_mesh:
  "mesh_H grid_par =
     [(0, 0, 0), (0, 0, 1), (0, 1, 0), (0, 1, 1), (1, 0, 0), (1, 0, 1), (1, 1, 0), (1, 1, 1)]"
  by code_simp

lemma grid_par_keys: "orbit_keys grid_par = [0, 1, 2, 3, 6, 7]"
  by code_simp

lemma grid_par_reduced:
  "index_select (mesh_H grid_par) [0, 1, 2, 3, 6, 7] =
     Inr [(0, 0, 0), (0, 0, 1), (0, 1, 0), (0, 1, 1), (1, 1, 0), (1, 1, 1)]"
  by code_simp

lemma grid_par_index:
  "index_table grid_par [(0, 0, 0), (0, 0, 1), (0, 1, 0), (0, 1, 1), (1, 1, 0), (1, 1, 1)] =
     [[0, 0], [1, 1], [2, 4], [3, 5], [6, 6], [7, 7]]"
  by code_simp

lemma grid_par_conj:
  "conj_table grid_par [(0, 0, 0), (0, 0, 1), (0, 1, 0), (0, 1, 1), (1, 1, 0), (1, 1, 1)] =
     [[False, False], [False, False], [False, False], [False, False], [False, False],
      [False, False]]"
  by code_simp

lemma grid_par_iH_index:
  "mapM (index_select (mesh_H grid_par)) [[0, 0], [1, 1], [2, 4], [3, 5], [6, 6], [7, 7]] =
     Inr [[(0, 0, 0), (0, 0, 0)], [(0, 0, 1), (0, 0, 1)], [(0, 1, 0), (1, 0, 0)],
          [(0, 1, 1), (1, 0, 1)], [(1, 1, 0), (1, 1, 0)], [(1, 1, 1), (1, 1, 1)]]"
  by code_simp

lemma grid_par_layout:
  "build_layout grid_par \<lparr>td_n_tot = 6, td_n_procs = 2, td_i_proc = 0\<rparr>
     [[(0, 0, 0), (0, 0, 0)], [(0, 0, 1), (0, 0, 1)], [(0, 1, 0), (1, 0, 0)],
      [(0, 1, 1), (1, 0, 1)], [(1, 1, 0), (1, 1, 0)], [(1, 1, 1), (1, 1, 1)]] =
     Parallel [0, 4, 6] [0, 4, 6] [0, 0, 1, 2, 3, 3] [0, 1, 4, 5, 2, 3] [0, 1, 4, 5, 2, 3]"
  by code_simp

lemma grid_par_counts:
  "unique_counts [0, 0, 1, 1, 2, 4, 3, 5, 6, 6, 7, 7] = [2, 2, 1, 1, 1, 1, 2, 2]"
  by code_simp

lemma grid_par_multiplicity:
  "local_multiplicity (2, 2, 2) 0 1 [2, 2, 1, 1, 1, 1, 2, 2] = Inr [2, 1, 1, 2]"
  by code_simp

lemma grid_par_division:
  "i_start \<lparr>td_n_tot = 6, td_n_procs = 2, td_i_proc = 0\<rparr> = 0"
  "i_stop \<lparr>td_n_tot = 6, td_n_procs = 2, td_i_proc = 0\<rparr> = 3"
  "i_start \<lparr>td_n_tot = 2, td_n_procs = 2, td_i_proc = 0\<rparr> = 0"
  "i_stop \<lparr>td_n_tot = 2, td_n_procs = 2, td_i_proc = 0\<rparr> = 1"
  by (simp_all add: i_start_def i_stop_def n_each_def)

lemma init_grid_par: "init grid_par = Inr engine_par"
proof -
  have k: "index_select (mesh_H grid_par) (orbit_keys grid_par) =
      Inr [(0, 0, 0), (0, 0, 1), (0, 1, 0), (0, 1, 1), (1, 1, 0), (1, 1, 1)]"
    by (simp only: grid_par_keys grid_par_reduced)
  have i: "mapM (index_select (mesh_H grid_par))
      (index_table grid_par [(0, 0, 0), (0, 0, 1), (0, 1, 0), (0, 1, 1), (1, 1, 0), (1, 1, 1)]) =
     Inr [[(0, 0, 0), (0, 0, 0)], [(0, 0, 1), (0, 0, 1)], [(0, 1, 0), (1, 0, 0)],
          [(0, 1, 1), (1, 0, 1)], [(1, 1, 0), (1, 1, 0)], [(1, 1, 1), (1, 1, 1)]]"
    by (simp only: grid_par_index grid_par_iH_index)
  have c: "concat [[0, 0], [1, 1], [2, 4], [3, 5], [6, 6], [7, 7]] =
      [0, 0, 1, 1, 2, 4, 3, 5, 6, 6, 7, 7 :: int]" by simp
  have m: "local_multiplicity (shapeH grid_par) (i_start (split2H grid_par))
      (i_stop (split2H grid_par))
      (unique_counts (concat (index_table grid_par
         [(0, 0, 0), (0, 0, 1), (0, 1, 0), (0, 1, 1), (1, 1, 0), (1, 1, 1)]))) = Inr [2, 1, 1, 2]"
    by (simp only: grid_par_index c grid_par_counts grid_par_fields grid_par_division
        grid_par_multiplicity)
  have d: "\<lparr>td_n_tot = 6, td_n_procs = 2, td_i_proc = 0\<rparr> =
      \<lparr>td_n_tot = length [(0, 0, 0), (0, 0, 1), (0, 1, 0), (0, 1, 1), (1, 1, 0), (1, 1, 1 :: int)],
       td_n_procs = n_procs grid_par, td_i_proc = i_proc grid_par\<rparr>"
    by (simp add: grid_par_fields)
  have np: "1 < n_procs grid_par" "rot grid_par \<noteq> []" by (simp_all add: grid_par_fields)
  show ?thesis
    unfolding init_parallel_eval[OF k i m np d] grid_par_layout grid_par_conj
    by (simp add: grid_par_division grid_par_fields phase_table_def scale_of_def to_bool_def slice_def
        engine_par_def)
qed

section \<open>Canonical keys\<close>

lemma foldl_min_Min: "foldl min (a::int) xs = Min (insert a (set xs))"
proof (induction xs arbitrary: a)
  case Nil
  then show ?case by simp
next
  case (Cons x xs)
  have "Min (insert (min a x) (set xs)) = Min (insert a (insert x (set xs)))"
  proof (cases "set xs = {}")
    case True
    then show ?thesis by (simp add: min_def)
  next
    case False
    then show ?thesis by (simp add: Min_insert min.assoc)
  qed
  with Cons show ?case by simp
qed


lemma min_step_nth:
  fixes f :: "'v \<Rightarrow> 'r \<Rightarrow> int"
  assumes "length acc = length mesh" "i < length mesh"
  shows "foldl (\<lambda>acc r. map (\<lambda>(m, v). min m (f v r)) (zip acc mesh)) acc rs ! i =
         foldl min (acc ! i) (map (f (mesh ! i)) rs)"
  using assms
proof (induction rs arbitrary: acc)
  case Nil
  then show ?case by simp
next
  case (Cons r rs)
  let ?acc = "map (\<lambda>(m, v). min m (f v r)) (zip acc mesh)"
  have l: "length ?acc = length mesh" using Cons.prems by simp
  have "?acc ! i = min (acc ! i) (f (mesh ! i) r)" using Cons.prems by simp
  with Cons.IH[OF l Cons.prems(2)] show ?case by simp
qed


lemma min_equiv_index_nth:
  assumes "i < length (mesh_H g)"
  shows "min_equiv_index g ! i =
     Min (insert (fold_index g (mesh_H g ! i))
            ((\<lambda>r. fold_index g (vecmat (mesh_H g ! i) r)) ` set (rot g)))"
proof -
  have "min_equiv_index g ! i =
      foldl min (map (fold_index g) (mesh_H g) ! i)
        (map (\<lambda>r. fold_index g (vecmat (mesh_H g ! i) r)) (rot g))"
    unfolding min_equiv_index_def
    by (rule min_step_nth[where f = "\<lambda>v r. fold_index g (vecmat v r)"]) (simp_all add: assms)
  then show ?thesis using assms by (simp add: foldl_min_Min)
qed

lemma vecmat_identity: "vecmat v identity = v"
  by (cases v) (simp add: identity_def)

text \<open>
  C4.  When the operation list contains the identity (as a group does), the canonical key of
  every global index is the minimum, over the operations, of the rotated-and-folded
  flattened index of its mesh vector; and the orbit keys are exactly the distinct canonical
  keys, listed in strictly increasing order.
\<close>

theorem canonical_key_is_minimum:
  assumes "identity \<in> set (rot g)" and "i < length (mesh_H g)"
  shows "min_equiv_index g ! i =
           Min ((\<lambda>r. fold_index g (vecmat (mesh_H g ! i) r)) ` set (rot g))
       \<and> set (orbit_keys g) = set (min_equiv_index g)
       \<and> sorted (orbit_keys g) \<and> distinct (orbit_keys g)"
proof -
  let ?im = "(\<lambda>r. fold_index g (vecmat (mesh_H g ! i) r)) ` set (rot g)"
  from assms(1) have "fold_index g (vecmat (mesh_H g ! i) identity) \<in> ?im" by (rule imageI)
  then have "insert (fold_index g (mesh_H g ! i)) ?im = ?im"
    by (simp add: vecmat_identity insert_absorb)
  with min_equiv_index_nth[OF assms(2)] show ?thesis
    by (simp add: orbit_keys_def unique_def)
qed

lemma grid_2x2_min_equiv: "min_equiv_index grid_2x2 = [0, 1, 1, 3]"
  by code_simp

theorem canonical_key_is_minimum_witness:
  "identity \<in> set (rot grid_2x2) \<and> 2 < length (mesh_H grid_2x2)
   \<and> min_equiv_index grid_2x2 ! 2 = 1
   \<and> Min ((\<lambda>r. fold_index grid_2x2 (vecmat (mesh_H grid_2x2 ! 2) r)) ` set (rot grid_2x2)) = 1
   \<and> orbit_keys grid_2x2 = [0, 1, 3]"
proof -
  have h1: "identity \<in> set (rot grid_2x2)" by (simp add: grid_2x2_fields)
  have h2: "2 < length (mesh_H grid_2x2)" by (simp add: grid_2x2_mesh)
  from canonical_key_is_minimum[OF h1 h2] h1 h2 show ?thesis
    by (simp add: grid_2x2_min_equiv grid_2x2_keys)
qed

section \<open>The communication schedule\<close>

lemma set_concat_slice: "set (concat (slice a b xss)) \<subseteq> set (concat xss)"
  by (auto simp: slice_def dest: in_set_takeD in_set_dropD)

lemma init_parallel_layout:
  assumes "init g = Inr e" "1 < n_procs g"
  obtains iH_reduced iH_index where
    "index_select (mesh_H g) (orbit_keys g) = Inr iH_reduced"
    "mapM (index_select (mesh_H g)) (index_table g iH_reduced) = Inr iH_index"
    "e_layout e = build_layout g
       \<lparr>td_n_tot = length iH_reduced, td_n_procs = n_procs g, td_i_proc = i_proc g\<rparr> iH_index"
proof -
  from assms obtain iH_reduced where r: "index_select (mesh_H g) (orbit_keys g) = Inr iH_reduced"
    by (auto simp: init_def split: sum.splits)
  from assms r obtain iH_index where
    i: "mapM (index_select (mesh_H g)) (index_table g iH_reduced) = Inr iH_index"
    by (auto simp: init_def Let_def split: sum.splits)
  have "e_layout e = build_layout g
       \<lparr>td_n_tot = length iH_reduced, td_n_procs = n_procs g, td_i_proc = i_proc g\<rparr> iH_index"
    using assms r i by (auto simp: init_def Let_def split: sum.splits if_splits)
  from that[OF r i this] show thesis .
qed

lemma argsort_set: "set (argsort ks) = {0..<length ks}"
  by (simp add: argsort_def)

lemma nth_perm_nonneg:
  fixes ws :: "int list"
  assumes "set ri \<subseteq> {0..<length ws}" "\<forall>w \<in> set ws. 0 \<le> w"
  shows "\<forall>x \<in> set (map (\<lambda>i. ws ! i) ri). 0 \<le> x"
  using assms by auto

lemma build_layout_prev:
  assumes "\<forall>v \<in> set (concat iH_index). 0 \<le> z3 v"
  shows "length (send_prev (build_layout g dd iH_index)) = td_n_procs dd + 1"
    and "length (recv_prev (build_layout g dd iH_index)) = n_procs g + 1"
    and "send_prev (build_layout g dd iH_index) ! 0 = 0"
    and "recv_prev (build_layout g dd iH_index) ! 0 = 0"
proof -
  let ?whose = "map (map (\<lambda>v. whose_each (split2H g) (z3 v))) iH_index"
  let ?ms = "where_eq ?whose (int (i_proc g))"
  let ?ws = "concat (slice (i_start dd) (i_stop dd) ?whose)"
  let ?ri = "argsort (map (\<lambda>(w, l). w * int (length ?ws) + int l) (zip ?ws [0..<length ?ws]))"
  have sp: "send_prev (build_layout g dd iH_index) =
      map (searchsorted (map (\<lambda>(r, s). int r) ?ms)) (n_prev dd)"
    by (simp add: build_layout_def Let_def)
  have rp: "recv_prev (build_layout g dd iH_index) =
      map (searchsorted (map (\<lambda>i. ?ws ! i) ?ri)) (map int [0..<n_procs g + 1])"
    by (simp add: build_layout_def Let_def)
  show "length (send_prev (build_layout g dd iH_index)) = td_n_procs dd + 1"
    by (simp add: sp n_prev_def)
  show "length (recv_prev (build_layout g dd iH_index)) = n_procs g + 1"
    by (simp add: rp)
  have n0: "n_prev dd ! 0 = 0"
    by (simp add: n_prev_def del: upt_Suc)
  have ln: "0 < length (n_prev dd)" by (simp add: n_prev_def)
  have s0: "send_prev (build_layout g dd iH_index) ! 0 =
      searchsorted (map (\<lambda>(r, s). int r) ?ms) (n_prev dd ! 0)"
    unfolding sp using ln by (rule nth_map)
  have "\<forall>x \<in> set (map (\<lambda>(r, s). int r) ?ms). 0 \<le> x" by auto
  from searchsorted_nonneg_0[OF this] s0 n0
  show "send_prev (build_layout g dd iH_index) ! 0 = 0"
    by (simp only:)
  have "set ?ws \<subseteq> set (concat ?whose)" by (rule set_concat_slice)
  moreover have "concat ?whose = map (\<lambda>v. whose_each (split2H g) (z3 v)) (concat iH_index)"
    by (simp add: map_concat)
  ultimately have sws:
    "set ?ws \<subseteq> (\<lambda>v. whose_each (split2H g) (z3 v)) ` set (concat iH_index)"
    by (simp only: set_map)
  have wn: "\<forall>w \<in> set ?ws. 0 \<le> w"
  proof
    fix w assume "w \<in> set ?ws"
    with sws obtain v where "v \<in> set (concat iH_index)" "w = whose_each (split2H g) (z3 v)"
      by blast
    with assms have "0 \<le> z3 v" by blast
    then show "0 \<le> w" unfolding \<open>w = whose_each (split2H g) (z3 v)\<close>
      by (simp add: whose_each_def div_int_pos_iff)
  qed
  have "set ?ri \<subseteq> {0..<length ?ws}" unfolding argsort_set by simp
  from nth_perm_nonneg[OF this wn]
  have "\<forall>x \<in> set (map (\<lambda>i. ?ws ! i) ?ri). 0 \<le> x" .
  from searchsorted_nonneg_0[OF this]
  have z: "searchsorted (map (\<lambda>i. ?ws ! i) ?ri) 0 = 0" .
  have m0: "map int [0..<n_procs g + 1] ! 0 = 0" by (simp del: upt_Suc)
  have "recv_prev (build_layout g dd iH_index) ! 0 =
      searchsorted (map (\<lambda>i. ?ws ! i) ?ri) (map int [0..<n_procs g + 1] ! 0)"
    unfolding rp by (rule nth_map) simp
  with z m0 show "recv_prev (build_layout g dd iH_index) ! 0 = 0"
    by (simp only:)
qed

lemma mapM_index_select_set:
  assumes "mapM (index_select xs) kss = Inr yss"
  shows "set (concat yss) \<subseteq> set xs"
proof
  fix y assume "y \<in> set (concat yss)"
  then obtain ys where ys: "ys \<in> set yss" "y \<in> set ys" by auto
  then obtain i where i: "i < length yss" "yss ! i = ys" by (auto simp: in_set_conv_nth)
  from mapM_Inr_length[OF assms] i have "i < length kss" by simp
  from mapM_Inr_nth[OF assms this] i have "index_select xs (kss ! i) = Inr ys" by simp
  from index_select_Inr_set[OF this] ys show "y \<in> set xs" by auto
qed

text \<open>
  C7.  For an engine built with MPI, in both tables of the first exchange the offset for
  rank \<open>p\<close> is the sum of the counts for the ranks below \<open>p\<close> (zero for rank 0), there is
  one count per rank, and the second exchange is given the receive counts and offsets of
  the first as its send side and the send counts and offsets of the first as its receive
  side.  The mesh has no negative last component.
\<close>

theorem schedule_offsets_prefix_sums:
  assumes "init g = Inr e" and "1 < n_procs g" and "\<forall>v \<in> set (mesh_H g). 0 \<le> z3 v"
    and "p < n_procs g"
  shows "send_offsets (gather_exchange (e_layout e) nb) ! p =
           sum_list (take p (send_counts (gather_exchange (e_layout e) nb)))
       \<and> recv_offsets (gather_exchange (e_layout e) nb) ! p =
           sum_list (take p (recv_counts (gather_exchange (e_layout e) nb)))
       \<and> length (send_counts (gather_exchange (e_layout e) nb)) = n_procs g
       \<and> length (recv_counts (gather_exchange (e_layout e) nb)) = n_procs g
       \<and> send_counts (scatter_exchange (e_layout e) nb) = recv_counts (gather_exchange (e_layout e) nb)
       \<and> send_offsets (scatter_exchange (e_layout e) nb) = recv_offsets (gather_exchange (e_layout e) nb)
       \<and> recv_counts (scatter_exchange (e_layout e) nb) = send_counts (gather_exchange (e_layout e) nb)
       \<and> recv_offsets (scatter_exchange (e_layout e) nb) = send_offsets (gather_exchange (e_layout e) nb)"
proof -
  from init_parallel_layout[OF assms(1,2)] obtain iH_reduced iH_index where
    i: "mapM (index_select (mesh_H g)) (index_table g iH_reduced) = Inr iH_index"
    and l: "e_layout e = build_layout g
       \<lparr>td_n_tot = length iH_reduced, td_n_procs = n_procs g, td_i_proc = i_proc g\<rparr> iH_index"
    by blast
  from mapM_index_select_set[OF i] assms(3)
  have nn: "\<forall>v \<in> set (concat iH_index). 0 \<le> z3 v" by blast
  note bl = build_layout_prev[OF nn, of g
      "\<lparr>td_n_tot = length iH_reduced, td_n_procs = n_procs g, td_i_proc = i_proc g\<rparr>",
      folded l]
  from bl(1) have ls: "length (send_prev (e_layout e)) = n_procs g + 1" by simp
  from ls assms(4) have ps: "Suc p < length (send_prev (e_layout e))" by simp
  from bl(2) assms(4) have pr: "Suc p < length (recv_prev (e_layout e))" by simp
  from prefix_offsets[OF ps bl(3)] prefix_offsets[OF pr bl(4)] ls bl(2)
  show ?thesis
    by (simp add: gather_exchange_def scatter_exchange_def Let_def diff_length)
qed

theorem schedule_offsets_prefix_sums_witness:
  "init grid_par = Inr engine_par \<and> 1 < n_procs grid_par
   \<and> gather_exchange (e_layout engine_par) 3 =
       \<lparr>send_counts = [12, 6], send_offsets = [0, 12],
        recv_counts = [12, 6], recv_offsets = [0, 12]\<rparr>
   \<and> send_offsets (gather_exchange (e_layout engine_par) 3) ! 1 =
       sum_list (take 1 (send_counts (gather_exchange (e_layout engine_par) 3)))"
proof -
  have h2: "1 < n_procs grid_par" by (simp add: grid_par_fields)
  have h3: "\<forall>v \<in> set (mesh_H grid_par). 0 \<le> z3 v" by (simp add: grid_par_mesh)
  have h4: "1 < n_procs grid_par" by (simp add: grid_par_fields)
  have x: "gather_exchange (e_layout engine_par) 3 =
       \<lparr>send_counts = [12, 6], send_offsets = [0, 12],
        recv_counts = [12, 6], recv_offsets = [0, 12]\<rparr>"
    by (simp add: gather_exchange_def engine_par_def diff_def)
  from schedule_offsets_prefix_sums[OF init_grid_par h2 h3 h4, of 3] init_grid_par h2 x
  show ?thesis by blast
qed

section \<open>Worker counts of the two partitions\<close>

lemma grid_mismatch_fields:
  "n_procs grid_mismatch = 2" "i_proc grid_mismatch = 0" "rot grid_mismatch = [identity, swap_xy]"
  "trans grid_mismatch = [(0, 0, 0), (0, 0, 0)]" "shapeH_mine grid_mismatch = (2, 2, 2)"
  "shape grid_mismatch = (2, 2, 2)" "shapeH grid_mismatch = (2, 2, 2)" "grid_id grid_mismatch = 0"
  "split2H grid_mismatch = \<lparr>td_n_tot = 2, td_n_procs = 1, td_i_proc = 0\<rparr>"
  by (simp_all add: grid_mismatch_def)

lemma grid_mismatch_keys: "orbit_keys grid_mismatch = [0, 1, 2, 3, 6, 7]"
  by code_simp

lemma grid_mismatch_reduced:
  "index_select (mesh_H grid_mismatch) [0, 1, 2, 3, 6, 7] =
     Inr [(0, 0, 0), (0, 0, 1), (0, 1, 0), (0, 1, 1), (1, 1, 0), (1, 1, 1)]"
  by code_simp

lemma grid_mismatch_index:
  "index_table grid_mismatch [(0, 0, 0), (0, 0, 1), (0, 1, 0), (0, 1, 1), (1, 1, 0), (1, 1, 1)] =
     [[0, 0], [1, 1], [2, 4], [3, 5], [6, 6], [7, 7]]"
  by code_simp

lemma grid_mismatch_conj:
  "conj_table grid_mismatch [(0, 0, 0), (0, 0, 1), (0, 1, 0), (0, 1, 1), (1, 1, 0), (1, 1, 1)] =
     [[False, False], [False, False], [False, False], [False, False], [False, False],
      [False, False]]"
  by code_simp

lemma grid_mismatch_iH_index:
  "mapM (index_select (mesh_H grid_mismatch)) [[0, 0], [1, 1], [2, 4], [3, 5], [6, 6], [7, 7]] =
     Inr [[(0, 0, 0), (0, 0, 0)], [(0, 0, 1), (0, 0, 1)], [(0, 1, 0), (1, 0, 0)],
          [(0, 1, 1), (1, 0, 1)], [(1, 1, 0), (1, 1, 0)], [(1, 1, 1), (1, 1, 1)]]"
  by code_simp

lemma grid_mismatch_layout:
  "build_layout grid_mismatch \<lparr>td_n_tot = 6, td_n_procs = 2, td_i_proc = 0\<rparr>
     [[(0, 0, 0), (0, 0, 0)], [(0, 0, 1), (0, 0, 1)], [(0, 1, 0), (1, 0, 0)],
      [(0, 1, 1), (1, 0, 1)], [(1, 1, 0), (1, 1, 0)], [(1, 1, 1), (1, 1, 1)]] =
     Parallel [0, 6, 12] [0, 6, 6] [0, 0, 1, 1, 2, 4, 3, 5, 6, 6, 7, 7]
       [0, 1, 2, 3, 4, 5] [0, 1, 2, 3, 4, 5]"
  by code_simp

lemma grid_mismatch_multiplicity:
  "local_multiplicity (2, 2, 2) 0 2 [2, 2, 1, 1, 1, 1, 2, 2] = Inr [2, 2, 1, 1, 1, 1, 2, 2]"
  by code_simp

lemma grid_mismatch_division:
  "i_start \<lparr>td_n_tot = 2, td_n_procs = 1, td_i_proc = 0\<rparr> = 0"
  "i_stop \<lparr>td_n_tot = 2, td_n_procs = 1, td_i_proc = 0\<rparr> = 2"
  by (simp_all add: i_start_def i_stop_def n_each_def)

lemma init_grid_mismatch: "init grid_mismatch = Inr engine_mismatch"
proof -
  have k: "index_select (mesh_H grid_mismatch) (orbit_keys grid_mismatch) =
      Inr [(0, 0, 0), (0, 0, 1), (0, 1, 0), (0, 1, 1), (1, 1, 0), (1, 1, 1)]"
    by (simp only: grid_mismatch_keys grid_mismatch_reduced)
  have i: "mapM (index_select (mesh_H grid_mismatch))
      (index_table grid_mismatch
         [(0, 0, 0), (0, 0, 1), (0, 1, 0), (0, 1, 1), (1, 1, 0), (1, 1, 1)]) =
     Inr [[(0, 0, 0), (0, 0, 0)], [(0, 0, 1), (0, 0, 1)], [(0, 1, 0), (1, 0, 0)],
          [(0, 1, 1), (1, 0, 1)], [(1, 1, 0), (1, 1, 0)], [(1, 1, 1), (1, 1, 1)]]"
    by (simp only: grid_mismatch_index grid_mismatch_iH_index)
  have c: "concat [[0, 0], [1, 1], [2, 4], [3, 5], [6, 6], [7, 7]] =
      [0, 0, 1, 1, 2, 4, 3, 5, 6, 6, 7, 7 :: int]" by simp
  have m: "local_multiplicity (shapeH grid_mismatch) (i_start (split2H grid_mismatch))
      (i_stop (split2H grid_mismatch))
      (unique_counts (concat (index_table grid_mismatch
         [(0, 0, 0), (0, 0, 1), (0, 1, 0), (0, 1, 1), (1, 1, 0), (1, 1, 1)]))) =
      Inr [2, 2, 1, 1, 1, 1, 2, 2]"
    by (simp only: grid_mismatch_index c grid_par_counts grid_mismatch_fields
        grid_mismatch_division grid_mismatch_multiplicity)
  have d: "\<lparr>td_n_tot = 6, td_n_procs = 2, td_i_proc = 0\<rparr> =
      \<lparr>td_n_tot = length [(0, 0, 0), (0, 0, 1), (0, 1, 0), (0, 1, 1), (1, 1, 0), (1, 1, 1 :: int)],
       td_n_procs = n_procs grid_mismatch, td_i_proc = i_proc grid_mismatch\<rparr>"
    by (simp add: grid_mismatch_fields)
  have np: "1 < n_procs grid_mismatch" "rot grid_mismatch \<noteq> []"
    by (simp_all add: grid_mismatch_fields)
  show ?thesis
    unfolding init_parallel_eval[OF k i m np d] grid_mismatch_layout grid_mismatch_conj
    by (simp add: grid_par_division grid_mismatch_fields phase_table_def scale_of_def to_bool_def slice_def
        engine_mismatch_def)
qed

lemma gather_src_ok:
  assumes "\<forall>k \<in> set ks. 0 \<le> k \<and> k < int ng" "\<forall>row \<in> set v_data. length row = ng"
  shows "mapM (\<lambda>k. mapM (\<lambda>row. py_nth row k) v_data) ks =
         Inr (map (\<lambda>k. map (\<lambda>row. row ! nat k) v_data) ks)"
proof (rule mapM_all_Inr)
  fix k assume "k \<in> set ks"
  with assms have k: "0 \<le> k" "k < int ng" by auto
  show "mapM (\<lambda>row. py_nth row k) v_data = Inr (map (\<lambda>row. row ! nat k) v_data)"
  proof (rule mapM_all_Inr)
    fix row assume "row \<in> set v_data"
    with assms k show "py_nth row k = Inr (row ! nat k)" by (simp add: py_nth_nonneg)
  qed
qed

lemma call_parallel_completes:
  assumes "mapM (\<lambda>k. mapM (\<lambda>row. py_nth row k) v_data) (grid_index l) = Inr src_rows"
    and "length (recv_index l) = n_orbits_mine e * n_sym e"
    and "length (inv_multiplicity e) = ng"
  shows "fst (call_parallel e l nb ng v_data r1 r2) = None"
proof -
  from assms(1,2) obtain acc where "accumulate_parallel e l nb ng v_data r1 r2 = Inr acc"
    by (simp add: accumulate_parallel_def Let_def)
  from finish_completes[OF this assms(3)] show ?thesis by (simp add: call_parallel_def)
qed

lemma call_parallel_mode:
  assumes "grid_id (f_grid v) = grid_id (e_grid e)"
    and "n_batch_of (data_shape v) = nb" and "n_grid_of (e_grid e) = ng"
    and "length (data v) = nb * ng"
    and "1 < n_procs (e_grid e)" and "e_layout e = Parallel sp rp gi ri oi"
  shows "call e v r =
     (fst (call_parallel e (e_layout e) nb ng (rows_of nb ng (data v)) (fst r) (snd r)), e,
      caller_field v (call_parallel e (e_layout e) nb ng (rows_of nb ng (data v))
                        (fst r) (snd r)))"
  using assms by (simp add: call_def Let_def)

lemma call_serial_mode:
  assumes "grid_id (f_grid v) = grid_id (e_grid e)"
    and "n_batch_of (data_shape v) = nb" and "n_grid_of (e_grid e) = ng"
    and "length (data v) = nb * ng"
    and "\<not> 1 < n_procs (e_grid e)" and "e_layout e = Serial ix"
  shows "call e v r =
     (fst (call_serial e ix nb ng (rows_of nb ng (data v))), e,
      caller_field v (call_serial e ix nb ng (rows_of nb ng (data v))))"
  using assms by (simp add: call_def Let_def)

lemma call_mismatch:
  "fst (call engine_mismatch field_mismatch
          ([[1, 1, 2, 2, 3, 5], []], [[2, 2, 4, 4, 8, 8], [10, 10, 14, 14, 16, 16]])) = None"
proof -
  let ?l = "e_layout engine_mismatch"
  have nb: "n_batch_of (data_shape field_mismatch) = Suc 0"
    by (simp add: n_batch_of_def field_mismatch_def)
  have ng: "n_grid_of (e_grid engine_mismatch) = 8"
    by (simp add: n_grid_of_def engine_mismatch_def grid_mismatch_fields)
  have rows: "rows_of (Suc 0) 8 (data field_mismatch) = [[1, 2, 3, 4, 5, 6, 7, 8]]"
    by (simp add: rows_of_def field_mismatch_def)
  have l: "?l = Parallel [0, 6, 12] [0, 6, 6] [0, 0, 1, 1, 2, 4, 3, 5, 6, 6, 7, 7]
                   [0, 1, 2, 3, 4, 5] [0, 1, 2, 3, 4, 5]"
    "n_procs (e_grid engine_mismatch) = 2"
    "grid_id (f_grid field_mismatch) = grid_id (e_grid engine_mismatch)"
    "length (data field_mismatch) = 8"
    by (simp_all add: engine_mismatch_def field_mismatch_def grid_mismatch_fields)
  have g: "mapM (\<lambda>k. mapM (\<lambda>row. py_nth row k) [[1, 2, 3, 4, 5, 6, 7, 8 :: complex]])
             (grid_index ?l) =
           Inr (map (\<lambda>k. map (\<lambda>row. row ! nat k) [[1, 2, 3, 4, 5, 6, 7, 8]]) (grid_index ?l))"
    by (rule gather_src_ok[where ng = 8]) (simp_all add: l)
  have c: "fst (call_parallel engine_mismatch ?l (Suc 0) 8 [[1, 2, 3, 4, 5, 6, 7, 8]] r1 r2) = None"
    for r1 r2
    by (rule call_parallel_completes[OF g]) (simp_all add: l engine_mismatch_def)
  have len: "length (data field_mismatch) = Suc 0 * 8" by (simp add: l)
  have np: "1 < n_procs (e_grid engine_mismatch)" by (simp add: l)
  show ?thesis
    unfolding call_parallel_mode[OF l(3) nb ng len np l(1)] rows using c by simp
qed

lemma local_multiplicity_Inl: "local_multiplicity sH a b m = Inl err \<Longrightarrow> err = RuntimeError"
  by (auto simp: local_multiplicity_def split: if_splits)

lemma mapM_index_select_Inl: "mapM (index_select xs) kss = Inl err \<Longrightarrow> err = IndexError"
  by (auto dest!: mapM_Inl index_select_Inl)

lemma init_Inl:
  assumes "init g = Inl err"
  shows "err = IndexError \<or> err = RuntimeError \<or> err = ZeroDivisionError"
proof (cases "index_select (mesh_H g) (orbit_keys g)")
  case (Inl x)
  with assms index_select_Inl[OF Inl] show ?thesis by (simp add: init_def)
next
  case (Inr iH_reduced)
  show ?thesis
  proof (cases "1 < n_procs g")
    case False
    with assms Inr show ?thesis by (auto simp: init_def Let_def split: if_splits)
  next
    case True
    show ?thesis
    proof (cases "mapM (index_select (mesh_H g)) (index_table g iH_reduced)")
      case (Inl x)
      with assms Inr True mapM_index_select_Inl[OF Inl] show ?thesis
        by (simp add: init_def Let_def)
    next
      case i: (Inr iH_index)
      with assms Inr True show ?thesis
        by (auto simp: init_def Let_def split: sum.splits if_splits
            dest: local_multiplicity_Inl)
    qed
  qed
qed

lemma accumulate_serial_Inl:
  assumes "accumulate_serial e index ng v_data = Inl err"
  shows "err = IndexError"
proof -
  from assms have "mapM (\<lambda>row. mapM (index_select row) index) v_data = Inl err"
    by (auto simp: accumulate_serial_def Let_def split: sum.splits)
  from mapM_Inl[OF this] obtain row :: "complex list"
    where "mapM (index_select row) index = Inl err" by blast
  then show ?thesis by (rule mapM_index_select_Inl)
qed

lemma accumulate_parallel_Inl:
  assumes "accumulate_parallel e l nb ng v_data r1 r2 = Inl err"
  shows "err = IndexError \<or> err = RuntimeError"
proof (cases "mapM (\<lambda>k. mapM (\<lambda>row. py_nth row k) v_data) (grid_index l)")
  case (Inl x)
  from mapM_Inl[OF Inl] obtain k where "mapM (\<lambda>row. py_nth row k) v_data = Inl x" by blast
  from mapM_Inl[OF this] obtain row :: "complex list"
    where "py_nth row k = Inl x" by blast
  then have "x = IndexError" by (rule py_nth_Inl)
  with Inl assms show ?thesis by (simp add: accumulate_parallel_def)
next
  case (Inr src)
  with assms show ?thesis
    by (auto simp: accumulate_parallel_def Let_def split: if_splits)
qed

lemma call_serial_error:
  assumes "fst (call_serial e index nb ng v_data) = Some err"
  shows "err = IndexError \<or> err = RuntimeError"
  using finish_error[OF assms[unfolded call_serial_def]] accumulate_serial_Inl by blast

lemma call_parallel_error:
  assumes "fst (call_parallel e l nb ng v_data r1 r2) = Some err"
  shows "err = IndexError \<or> err = RuntimeError"
  using finish_error[OF assms[unfolded call_parallel_def]] accumulate_parallel_Inl by blast

lemma call_assertion_only_grid:
  assumes "fst (call e v r) = Some AssertionError"
  shows "grid_id (f_grid v) \<noteq> grid_id (e_grid e)"
proof
  assume eq: "grid_id (f_grid v) = grid_id (e_grid e)"
  let ?nb = "n_batch_of (data_shape v)" and ?ng = "n_grid_of (e_grid e)"
  show False
  proof (cases "length (data v) = ?nb * ?ng")
    case False
    with eq assms show False by (simp add: call_def Let_def)
  next
    case len: True
    show False
    proof (cases "e_layout e")
      case (Serial ix)
      show False
      proof (cases "1 < n_procs (e_grid e)")
        case True
        with eq len Serial assms show False by (simp add: call_def Let_def)
      next
        case False
        from assms call_serial_error[of e ix ?nb ?ng _ AssertionError]
        show False unfolding call_serial_mode[OF eq refl refl len False Serial] by simp
      qed
    next
      case (Parallel sp rp gi ri oi)
      show False
      proof (cases "1 < n_procs (e_grid e)")
        case False
        with eq len Parallel assms show False by (simp add: call_def Let_def)
      next
        case True
        from assms call_parallel_error[of e _ ?nb ?ng _ _ _ AssertionError]
        show False unfolding call_parallel_mode[OF eq refl refl len True Parallel] by simp
      qed
    qed
  qed
qed

lemma build_layout_lengths:
  "length (send_prev (build_layout g dd iH_index)) = td_n_procs dd + 1"
  "length (recv_prev (build_layout g dd iH_index)) = n_procs g + 1"
  by (simp_all add: build_layout_def Let_def n_prev_def)

text \<open>
  C8, as stated, fails: for a grid on two processes whose grid partition was computed for one
  worker, the constructor returns an engine and a call runs through both exchanges and
  returns without any error.
\<close>

theorem worker_count_mismatch_counterexample:
  "td_n_procs (split2H grid_mismatch) \<noteq> n_procs grid_mismatch
   \<and> init grid_mismatch = Inr engine_mismatch
   \<and> fst (call engine_mismatch field_mismatch
             ([[1, 1, 2, 2, 3, 5], []], [[2, 2, 4, 4, 8, 8], [10, 10, 14, 14, 16, 16]])) = None"
  using init_grid_mismatch call_mismatch by (simp add: grid_mismatch_fields)

text \<open>
  C8, amended.  The code has no count-sum assertion.  The constructor never raises an
  assertion error, the only assertion error of a call is the one of the grid check, and
  with MPI both count tables are built for \<open>grid.n_procs\<close> workers, whatever worker count
  the grid partition was computed for.
\<close>

theorem no_worker_count_assertion:
  "init g \<noteq> Inl AssertionError
   \<and> (fst (call e v r) = Some AssertionError \<longrightarrow> grid_id (f_grid v) \<noteq> grid_id (e_grid e))
   \<and> (init g = Inr e \<longrightarrow> 1 < n_procs g \<longrightarrow>
        length (send_prev (e_layout e)) = n_procs g + 1
        \<and> length (recv_prev (e_layout e)) = n_procs g + 1)"
proof (intro conjI impI)
  show "init g \<noteq> Inl AssertionError" using init_Inl[of g AssertionError] by auto
next
  assume "fst (call e v r) = Some AssertionError"
  then show "grid_id (f_grid v) \<noteq> grid_id (e_grid e)" by (rule call_assertion_only_grid)
next
  assume a: "init g = Inr e" "1 < n_procs g"
  obtain iH_reduced iH_index where
    "index_select (mesh_H g) (orbit_keys g) = Inr iH_reduced"
    "mapM (index_select (mesh_H g)) (index_table g iH_reduced) = Inr iH_index"
    and l: "e_layout e = build_layout g
       \<lparr>td_n_tot = length iH_reduced, td_n_procs = n_procs g, td_i_proc = i_proc g\<rparr> iH_index"
    by (rule init_parallel_layout[OF a])
  show "length (send_prev (e_layout e)) = n_procs g + 1"
    unfolding l by (simp add: build_layout_lengths)
  show "length (recv_prev (e_layout e)) = n_procs g + 1"
    unfolding l by (simp add: build_layout_lengths)
qed

theorem no_worker_count_assertion_witness:
  "init grid_mismatch = Inr engine_mismatch \<and> 1 < n_procs grid_mismatch
   \<and> length (send_prev (e_layout engine_mismatch)) = n_procs grid_mismatch + 1
   \<and> length (recv_prev (e_layout engine_mismatch)) = n_procs grid_mismatch + 1
   \<and> fst (call engine_2x2 field_other_grid ([], [])) = Some AssertionError
   \<and> grid_id (f_grid field_other_grid) \<noteq> grid_id (e_grid engine_2x2)"
proof -
  have h: "1 < n_procs grid_mismatch" by (simp add: grid_mismatch_fields)
  have a: "fst (call engine_2x2 field_other_grid ([], [])) = Some AssertionError"
    by (simp add: call_def field_other_grid_def engine_2x2_def grid_2x2_fields)
  from no_worker_count_assertion[of grid_mismatch engine_mismatch field_2x2 "([], [])"]
    init_grid_mismatch h
  have l: "length (send_prev (e_layout engine_mismatch)) = n_procs grid_mismatch + 1
       \<and> length (recv_prev (e_layout engine_mismatch)) = n_procs grid_mismatch + 1"
    by simp
  from no_worker_count_assertion[of grid_2x2 engine_2x2 field_other_grid "([], [])"] a
  have g: "grid_id (f_grid field_other_grid) \<noteq> grid_id (e_grid engine_2x2)"
    by simp
  from init_grid_mismatch h l a g show ?thesis by simp
qed

section \<open>Orbits on the cubic grid with a mirror\<close>

lemma grid_cubic3_fields:
  "n_procs grid_cubic3 = 1" "rot grid_cubic3 = [identity, swap_yz]"
  "trans grid_cubic3 = [(0, 0, 0), (0, 0, 0)]" "shapeH_mine grid_cubic3 = (3, 3, 2)"
  "shape grid_cubic3 = (3, 3, 3)" "shapeH grid_cubic3 = (3, 3, 2)" "grid_id grid_cubic3 = 0"
  by (simp_all add: grid_cubic3_def)

lemma grid_cubic3_min_equiv:
  "min_equiv_index grid_cubic3 = [0, 1, 1, 3, 1, 5, 6, 7, 7, 9, 10, 11, 12, 13, 13, 15, 7, 11]"
  by code_simp

lemma grid_cubic3_image: "fold_index grid_cubic3 (vecmat (mesh_H grid_cubic3 ! 10) swap_yz) = 13"
  by code_simp

lemma grid_cubic3_keys: "orbit_keys grid_cubic3 = [0, 1, 3, 5, 6, 7, 9, 10, 11, 12, 13, 15]"
  by code_simp

lemma grid_cubic3_reduced:
  "index_select (mesh_H grid_cubic3) [0, 1, 3, 5, 6, 7, 9, 10, 11, 12, 13, 15] =
     Inr [(0, 0, 0), (0, 0, 1), (0, 1, 1), (0, - 1, 1), (1, 0, 0), (1, 0, 1),
          (1, 1, 1), (1, - 1, 0), (1, - 1, 1), (- 1, 0, 0), (- 1, 0, 1), (- 1, 1, 1)]"
  by code_simp

lemma grid_cubic3_index:
  "index_table grid_cubic3
     [(0, 0, 0), (0, 0, 1), (0, 1, 1), (0, - 1, 1), (1, 0, 0), (1, 0, 1),
      (1, 1, 1), (1, - 1, 0), (1, - 1, 1), (- 1, 0, 0), (- 1, 0, 1), (- 1, 1, 1)] =
     [[0, 0], [1, 2], [3, 3], [5, 5], [6, 6], [7, 8], [9, 9], [10, 13],
      [11, 17], [12, 12], [13, 14], [15, 15]]"
  by code_simp

lemma grid_cubic3_conj:
  "conj_table grid_cubic3
     [(0, 0, 0), (0, 0, 1), (0, 1, 1), (0, - 1, 1), (1, 0, 0), (1, 0, 1),
      (1, 1, 1), (1, - 1, 0), (1, - 1, 1), (- 1, 0, 0), (- 1, 0, 1), (- 1, 1, 1)] =
     [[False, False], [False, False], [False, False], [False, True],
      [False, False], [False, False], [False, False], [False, True],
      [False, True], [False, False], [False, False], [False, False]]"
  by code_simp

lemma grid_cubic3_counts:
  "unique_counts [0, 0, 1, 2, 3, 3, 5, 5, 6, 6, 7, 8, 9, 9, 10, 13, 11, 17, 12, 12, 13, 14,
                  15, 15] =
     [2, 1, 1, 2, 2, 2, 1, 1, 2, 1, 1, 2, 2, 1, 2, 1]"
  by code_simp

lemma init_grid_cubic3: "init grid_cubic3 = Inr engine_cubic3"
proof -
  have k: "index_select (mesh_H grid_cubic3) (orbit_keys grid_cubic3) =
     Inr [(0, 0, 0), (0, 0, 1), (0, 1, 1), (0, - 1, 1), (1, 0, 0), (1, 0, 1),
          (1, 1, 1), (1, - 1, 0), (1, - 1, 1), (- 1, 0, 0), (- 1, 0, 1), (- 1, 1, 1)]"
    by (simp only: grid_cubic3_keys grid_cubic3_reduced)
  have np: "\<not> 1 < n_procs grid_cubic3" "rot grid_cubic3 \<noteq> []"
    by (simp_all add: grid_cubic3_fields)
  have c: "concat [[0, 0], [1, 2], [3, 3], [5, 5], [6, 6], [7, 8], [9, 9], [10, 13],
      [11, 17], [12, 12], [13, 14], [15, 15]] =
      [0, 0, 1, 2, 3, 3, 5, 5, 6, 6, 7, 8, 9, 9, 10, 13, 11, 17, 12, 12, 13, 14, 15, 15 :: int]"
    by simp
  show ?thesis
    unfolding init_serial_eval[OF k np] grid_cubic3_index grid_cubic3_conj c grid_cubic3_counts
    by (simp add: grid_cubic3_fields phase_table_def scale_of_def to_bool_def engine_cubic3_def)
qed

lemma gather_serial_ok:
  assumes "\<forall>row \<in> set v_data. length row = ng"
    and "\<forall>k \<in> set (concat index). 0 \<le> k \<and> k < int ng"
  shows "mapM (\<lambda>row. mapM (index_select row) index) v_data =
         Inr (map (\<lambda>row. map (map (\<lambda>k. row ! nat k)) index) v_data)"
proof (rule mapM_all_Inr)
  fix row :: "'a list" assume r: "row \<in> set v_data"
  show "mapM (index_select row) index = Inr (map (map (\<lambda>k. row ! nat k)) index)"
  proof (rule mapM_all_Inr)
    fix ks assume ks: "ks \<in> set index"
    show "index_select row ks = Inr (map (\<lambda>k. row ! nat k) ks)"
      unfolding index_select_def
    proof (rule mapM_all_Inr)
      fix k assume "k \<in> set ks"
      with ks assms(2) have "0 \<le> k" "k < int ng" by auto
      with r assms(1) show "py_nth row k = Inr (row ! nat k)" by (simp add: py_nth_nonneg)
    qed
  qed
qed

lemma call_serial_broadcast_error:
  assumes "\<forall>row \<in> set v_data. length row = ng"
    and "\<forall>k \<in> set (concat index). 0 \<le> k \<and> k < int ng"
    and "length (inv_multiplicity e) \<noteq> ng" "length (inv_multiplicity e) \<noteq> 1"
  shows "fst (call_serial e index nb ng v_data) = Some RuntimeError"
  using assms(3,4)
  by (simp add: call_serial_def accumulate_serial_def gather_serial_ok[OF assms(1,2)] Let_def
      finish_def scale_rows_def)

lemma call_cubic3: "fst (call engine_cubic3 field_cubic3 ([], [])) = Some RuntimeError"
proof -
  let ?ix = "[[0, 0], [1, 2], [3, 3], [5, 5], [6, 6], [7, 8], [9, 9], [10, 13],
              [11, 17], [12, 12], [13, 14], [15, 15 :: int]]"
  have nb: "n_batch_of (data_shape field_cubic3) = Suc 0"
    by (simp add: n_batch_of_def field_cubic3_def)
  have ng: "n_grid_of (e_grid engine_cubic3) = 18"
    by (simp add: n_grid_of_def engine_cubic3_def grid_cubic3_fields)
  have l: "grid_id (f_grid field_cubic3) = grid_id (e_grid engine_cubic3)"
    "length (data field_cubic3) = Suc 0 * 18" "\<not> 1 < n_procs (e_grid engine_cubic3)"
    "e_layout engine_cubic3 = Serial ?ix"
    by (simp_all add: engine_cubic3_def field_cubic3_def grid_cubic3_fields)
  have u: "\<forall>row \<in> set (rows_of (Suc 0) 18 (data field_cubic3)). length row = 18"
    by (simp add: rows_of_def field_cubic3_def)
  have k: "\<forall>k \<in> set (concat ?ix). 0 \<le> k \<and> k < int 18" by simp
  have m: "length (inv_multiplicity engine_cubic3) \<noteq> 18"
    "length (inv_multiplicity engine_cubic3) \<noteq> 1" by (simp_all add: engine_cubic3_def)
  from call_serial_broadcast_error[OF u k m, of "Suc 0"] show ?thesis
    unfolding call_serial_mode[OF l(1) nb ng l(2,3,4)] by simp
qed

text \<open>
  C3 fails on the 3 x 3 x 3 grid with the mirror that exchanges the last two axes.  The
  rotated-and-folded image of index 10 is index 13, whose canonical key is 13 and not 10;
  index 4 is a member of no orbit; index 13 is a member of two orbits; and, the orbit members
  not covering the grid, every call on this grid ends in the runtime error of the final
  product.
\<close>

theorem orbit_partition_fails_on_mirror:
  "fold_index grid_cubic3 (vecmat (mesh_H grid_cubic3 ! 10) swap_yz) = 13
   \<and> min_equiv_index grid_cubic3 ! 10 = 10 \<and> min_equiv_index grid_cubic3 ! 13 = 13
   \<and> init grid_cubic3 = Inr engine_cubic3
   \<and> 4 \<notin> set (concat (s_index (e_layout engine_cubic3)))
   \<and> length (concat (filter (\<lambda>row. 13 \<in> set row) (s_index (e_layout engine_cubic3)))) = 4
   \<and> fst (call engine_cubic3 field_cubic3 ([], [])) = Some RuntimeError"
proof -
  have s: "s_index (e_layout engine_cubic3) =
      [[0, 0], [1, 2], [3, 3], [5, 5], [6, 6], [7, 8], [9, 9], [10, 13],
       [11, 17], [12, 12], [13, 14], [15, 15]]"
    by (simp add: engine_cubic3_def)
  show ?thesis
    by (simp add: grid_cubic3_image grid_cubic3_min_equiv init_grid_cubic3 call_cubic3 s)
qed

section \<open>The final normalization\<close>

lemma fold_index_range:
  assumes "shapes_ok (shape g) (shapeH g)"
  shows "0 \<le> fold_index g v \<and> fold_index g v < prod3 (shapeH g)"
proof -
  obtain s0 s1 s2 where s: "shape g = (s0, s1, s2)" by (cases "shape g") auto
  obtain a b c where v: "v = (a, b, c)" by (cases v) auto
  from assms s have "shapes_ok (s0, s1, s2) (shapeH g)" by simp
  from get_index_reduction[OF this, of a b c] show ?thesis
    by (simp add: fold_index_def s v)
qed

lemma index_table_range:
  assumes "shapes_ok (shape g) (shapeH g)"
  shows "\<forall>k \<in> set (concat (index_table g r)). 0 \<le> k \<and> k < prod3 (shapeH g)"
  using fold_index_range[OF assms] by (auto simp: index_table_def)

lemma unique_props: "sorted (unique xs)" "distinct (unique xs)" "set (unique xs) = set xs"
  by (simp_all add: unique_def)

lemma unique_full:
  assumes "\<forall>k \<in> set xs. 0 \<le> k \<and> k < int n" "length (unique xs) = n"
  shows "unique xs = map int [0..<n]"
proof -
  have sub: "set (unique xs) \<subseteq> {0..<int n}" using assms(1) by (auto simp: unique_props)
  have "card (set (unique xs)) = n"
    using assms(2) distinct_card[OF unique_props(2), of xs] by (simp only:)
  then have "card (set (unique xs)) = card {0..<int n}" by simp
  with sub have eq: "set (unique xs) = {0..<int n}" by (intro card_subset_eq) auto
  have "set (map int [0..<n]) = {0..<int n}"
    by (simp add: image_int_atLeastLessThan)
  moreover have "sorted (map int [0..<n])" by (simp add: sorted_map strict_sorted_iff[symmetric] flip: sorted_wrt_map)
  moreover have "distinct (map int [0..<n])" by (simp add: distinct_map)
  ultimately show ?thesis
    using eq unique_props(1,2)[of xs] by (intro sorted_distinct_set_unique) auto
qed

lemma unique_counts_nth:
  assumes "\<forall>k \<in> set xs. 0 \<le> k \<and> k < int n" "length (unique xs) = n" "i < n"
  shows "unique_counts xs ! i = int (count_list xs (int i))"
  using assms(3) by (simp add: unique_counts_def unique_full[OF assms(1,2)])

lemma unique_counts_length: "length (unique_counts xs) = length (unique xs)"
  by (simp add: unique_counts_def)

lemma nth_concat_uniform:
  assumes "\<forall>r \<in> set xss. length r = w" "l < length xss * w"
  shows "concat xss ! l = xss ! (l div w) ! (l mod w)"
  using assms
proof (induction xss arbitrary: l)
  case Nil
  then show ?case by simp
next
  case (Cons xs xss)
  then have w: "length xs = w" by simp
  from Cons.prems(2) have wpos: "0 < w" by (cases w) auto
  show ?case
  proof (cases "l < w")
    case True
    then show ?thesis by (simp add: nth_append w)
  next
    case False
    then have l: "l = (l - w) + w" by simp
    from False Cons.prems(2) have lt: "l - w < length xss * w" by simp
    have d: "l div w = Suc ((l - w) div w)" "l mod w = (l - w) mod w"
      using False wpos by (simp_all add: le_div_geq le_mod_geq)
    from Cons.IH[OF _ lt] Cons.prems(1) False show ?thesis
      by (simp add: nth_append w d)
  qed
qed

lemma slice_nth: "j < b - a \<Longrightarrow> a + j < length xs \<Longrightarrow> slice a b xs ! j = xs ! (a + j)"
  by (simp add: slice_def)

lemma slice_length: "b \<le> length xs \<Longrightarrow> length (slice a b xs) = b - a"
  by (simp add: slice_def)

lemma local_multiplicity_nth:
  assumes "local_multiplicity sH start stop mult = Inr mm" "stop \<le> nat (z3 sH)"
    and "l < length mm"
  shows "mm ! l = mult ! ((l div (stop - start)) * nat (z3 sH) + start + l mod (stop - start))"
    and "(l div (stop - start)) * nat (z3 sH) + start + l mod (stop - start) < length mult"
proof -
  let ?h = "nat (z3 sH)" and ?w = "stop - start"
  let ?n = "length mult div ?h"
  let ?rows = "map (\<lambda>r. slice start stop (slice (r * ?h) (r * ?h + ?h) mult)) [0..<?n]"
  from assms(1) have mm: "mm = concat ?rows"
    by (auto simp: local_multiplicity_def split: if_splits)
  have inner: "length (slice (r * ?h) (r * ?h + ?h) mult) = ?h" if "r < ?n" for r
  proof -
    from that have "Suc r \<le> ?n" by simp
    then have "Suc r * ?h \<le> ?n * ?h" by (rule mult_le_mono1)
    also have "\<dots> \<le> length mult" by simp
    finally have "r * ?h + ?h \<le> length mult" by simp
    then show ?thesis by (simp add: slice_length)
  qed
  have rowlen: "\<forall>r \<in> set ?rows. length r = ?w"
    using inner assms(2) by (auto simp: slice_length)
  then have "length mm = ?n * ?w"
    unfolding mm using length_concat_uniform[of ?rows ?w] by simp
  with assms(3) have l: "l < length ?rows * ?w" by simp
  then have wpos: "0 < ?w" by (cases ?w) auto
  from l have r: "l div ?w < ?n" by (simp add: less_mult_imp_div_less)
  have j: "l mod ?w < ?w" using wpos by simp
  have sj: "start + l mod ?w < ?h" using j assms(2) by simp
  have "mm ! l = ?rows ! (l div ?w) ! (l mod ?w)"
    unfolding mm by (rule nth_concat_uniform[OF rowlen l])
  also have "\<dots> = slice start stop (slice (l div ?w * ?h) (l div ?w * ?h + ?h) mult) ! (l mod ?w)"
    using r by simp
  also have "\<dots> = slice (l div ?w * ?h) (l div ?w * ?h + ?h) mult ! (start + l mod ?w)"
    using j sj inner[OF r] by (intro slice_nth) simp_all
  also have "\<dots> = mult ! (l div ?w * ?h + (start + l mod ?w))"
  proof (rule slice_nth)
    show "start + l mod ?w < l div ?w * ?h + ?h - l div ?w * ?h" using sj by simp
    from r have "Suc (l div ?w) \<le> ?n" by simp
    then have "Suc (l div ?w) * ?h \<le> ?n * ?h" by (rule mult_le_mono1)
    also have "\<dots> \<le> length mult" by simp
    finally show "l div ?w * ?h + (start + l mod ?w) < length mult" using sj by simp
  qed
  finally show "mm ! l = mult ! (l div ?w * ?h + start + l mod ?w)" by (simp add: add.assoc)
  from r have "Suc (l div ?w) \<le> ?n" by simp
  then have "Suc (l div ?w) * ?h \<le> ?n * ?h" by (rule mult_le_mono1)
  also have "\<dots> \<le> length mult" by simp
  finally show "l div ?w * ?h + start + l mod ?w < length mult" using sj by simp
qed

lemma init_multiplicity:
  assumes "init g = Inr e"
  obtains mm where
    "n_sym e = length (rot g)" "rot g \<noteq> []"
    "inv_multiplicity e = map (\<lambda>m. (1 / real (length (rot g))) / of_int m) mm"
    "if 1 < n_procs g
     then local_multiplicity (shapeH g) (i_start (split2H g)) (i_stop (split2H g))
            (unique_counts (orbit_slots g)) = Inr mm
     else mm = unique_counts (orbit_slots g)"
proof -
  from assms obtain r where r: "index_select (mesh_H g) (orbit_keys g) = Inr r"
    by (auto simp: init_def split: sum.splits)
  then have os: "orbit_slots g = concat (index_table g r)" by (simp add: orbit_slots_def)
  show thesis
  proof (cases "1 < n_procs g")
    case False
    with assms r have "n_sym e = length (rot g)" "rot g \<noteq> []"
      "inv_multiplicity e = map (\<lambda>m. (1 / real (length (rot g))) / of_int m)
          (unique_counts (orbit_slots g))"
      by (auto simp: init_def Let_def os split: if_splits)
    with False show thesis by (intro that[of "unique_counts (orbit_slots g)"]) simp_all
  next
    case True
    from assms r True obtain mm where
      m: "local_multiplicity (shapeH g) (i_start (split2H g)) (i_stop (split2H g))
            (unique_counts (orbit_slots g)) = Inr mm"
      by (auto simp: init_def Let_def os split: sum.splits if_splits)
    with assms r True have "n_sym e = length (rot g)" "rot g \<noteq> []"
      "inv_multiplicity e = map (\<lambda>m. (1 / real (length (rot g))) / of_int m) mm"
      by (auto simp: init_def Let_def os split: sum.splits if_splits)
    with True m show thesis by (intro that[of mm]) simp_all
  qed
qed

lemma orbit_slots_range:
  assumes "shapes_ok (shape g) (shapeH g)"
  shows "\<forall>k \<in> set (orbit_slots g). 0 \<le> k \<and> k < int (nat (prod3 (shapeH g)))"
proof (cases "index_select (mesh_H g) (orbit_keys g)")
  case (Inl a)
  then show ?thesis by (simp add: orbit_slots_def)
next
  case (Inr r)
  show ?thesis
  proof
    fix k assume "k \<in> set (orbit_slots g)"
    then have "k \<in> set (concat (index_table g r))" by (simp add: orbit_slots_def Inr)
    with index_table_range[OF assms, of r] have "0 \<le> k \<and> k < prod3 (shapeH g)" by blast
    then show "0 \<le> k \<and> k < int (nat (prod3 (shapeH g)))" by simp
  qed
qed

lemma inv_multiplicity_nth:
  assumes "init g = Inr e" and "shapes_ok (shape g) (shapeH g)"
    and "if 1 < n_procs g then i_stop (split2H g) \<le> nat (z3 (shapeH g))
         else length (inv_multiplicity e) = nat (prod3 (shapeH g))"
    and "l < length (inv_multiplicity e)"
  shows "inv_multiplicity e ! l =
         1 / (real (n_sym e) * real (count_list (orbit_slots g) (int (global_index g l))))"
proof -
  let ?N = "nat (prod3 (shapeH g))"
  from init_multiplicity[OF assms(1)] obtain mm where
    n: "n_sym e = length (rot g)"
    and inv: "inv_multiplicity e = map (\<lambda>m. (1 / real (length (rot g))) / of_int m) mm"
    and mm: "if 1 < n_procs g
     then local_multiplicity (shapeH g) (i_start (split2H g)) (i_stop (split2H g))
            (unique_counts (orbit_slots g)) = Inr mm
     else mm = unique_counts (orbit_slots g)"
    by blast
  from assms(4) inv have l: "l < length mm" by simp
  note rng = orbit_slots_range[OF assms(2)]
  have "mm ! l = int (count_list (orbit_slots g) (int (global_index g l)))"
  proof (cases "1 < n_procs g")
    case False
    with mm have m: "mm = unique_counts (orbit_slots g)" by simp
    from False assms(3) inv m have len: "length (unique (orbit_slots g)) = ?N"
      by (simp add: unique_counts_length)
    from l m len have "l < ?N" by (simp add: unique_counts_length)
    from unique_counts_nth[OF rng len this] False m show ?thesis
      by (simp add: global_index_def)
  next
    case True
    with mm have m: "local_multiplicity (shapeH g) (i_start (split2H g)) (i_stop (split2H g))
            (unique_counts (orbit_slots g)) = Inr mm" by simp
    from True assms(3) have st: "i_stop (split2H g) \<le> nat (z3 (shapeH g))" by simp
    from m have "int (length (unique_counts (orbit_slots g))) = prod3 (shapeH g)"
      by (auto simp: local_multiplicity_def split: if_splits)
    then have len: "length (unique (orbit_slots g)) = ?N"
      by (simp add: unique_counts_length)
    note ln = local_multiplicity_nth[OF m st l]
    from ln(2) len have "global_index g l < ?N"
      using True by (simp add: global_index_def Let_def unique_counts_length)
    from unique_counts_nth[OF rng len this] ln(1) True show ?thesis
      by (simp add: global_index_def Let_def)
  qed
  with inv l n show ?thesis by simp
qed

text \<open>
  C1, as stated, fails: on the 2 x 2 x 1 grid with the exchange of the first two axes, the
  orbit of index 0 is the row \<open>[0, 0]\<close> with one distinct member, the group has two
  operations, and the factor at index 0 is \<open>1/4\<close>, not \<open>1/(2 * 1)\<close>.
\<close>

theorem multiplicity_distinct_members_counterexample:
  "init grid_2x2 = Inr engine_2x2
   \<and> s_index (e_layout engine_2x2) ! 0 = [0, 0]
   \<and> card (set (s_index (e_layout engine_2x2) ! 0)) = 1
   \<and> n_sym engine_2x2 = 2
   \<and> inv_multiplicity engine_2x2 ! 0 = 1 / 4
   \<and> inv_multiplicity engine_2x2 ! 0 \<noteq>
       1 / (real (n_sym engine_2x2) * real (card (set (s_index (e_layout engine_2x2) ! 0))))"
proof -
  have "s_index (e_layout engine_2x2) ! 0 = [0, 0]" "n_sym engine_2x2 = 2"
    "inv_multiplicity engine_2x2 ! 0 = 1 / 4"
    by (simp_all add: engine_2x2_def)
  with init_grid_2x2 show ?thesis by simp
qed

text \<open>
  C1, amended.  For every position \<open>l\<close> of the local buffer, the final step of a call that
  completes multiplies the value accumulated there by \<open>1/(n_sym * multiplicity)\<close>, where the
  multiplicity is the number of entries of the (orbit, operation) index table that equal the
  global grid index of \<open>l\<close>, that is, the number of contributions accumulated at that
  index.  Without MPI every grid index is assumed to occur in the table (with MPI the
  constructor fails otherwise).
\<close>

theorem final_scaling_factor:
  assumes "init g = Inr e" and "shapes_ok (shape g) (shapeH g)"
    and "if 1 < n_procs g then i_stop (split2H g) \<le> nat (z3 (shapeH g))
         else length (inv_multiplicity e) = nat (prod3 (shapeH g))"
    and "l < length (inv_multiplicity e)"
  shows "inv_multiplicity e ! l =
           1 / (real (n_sym e) * real (count_list (orbit_slots g) (int (global_index g l))))
       \<and> (\<forall>acc v_data ng b.
             fst (finish e ng v_data (Inr acc)) = None \<longrightarrow> b < length acc \<longrightarrow>
             length (acc ! b) = ng \<longrightarrow> l < ng \<longrightarrow>
             snd (finish e ng v_data (Inr acc)) ! b ! l =
               acc ! b ! l *
               of_real (1 / (real (n_sym e) *
                             real (count_list (orbit_slots g) (int (global_index g l))))))"
proof (intro conjI allI impI)
  let ?F = "1 / (real (n_sym e) * real (count_list (orbit_slots g) (int (global_index g l))))"
  show f: "inv_multiplicity e ! l = ?F" by (rule inv_multiplicity_nth[OF assms])
  fix acc v_data :: "complex list list" and ng b
  assume ok: "fst (finish e ng v_data (Inr acc)) = None" and b: "b < length acc"
    and len: "length (acc ! b) = ng" and l: "l < ng"
  show "snd (finish e ng v_data (Inr acc)) ! b ! l = acc ! b ! l * of_real ?F"
  proof (cases "length (inv_multiplicity e) = ng")
    case True
    with b len l f show ?thesis by (simp add: finish_def scale_rows_def)
  next
    case False
    with ok have one: "length (inv_multiplicity e) = 1"
      by (auto simp: finish_def scale_rows_def split: if_splits)
    with assms(4) have "l = 0" by simp
    with False one b len l f show ?thesis by (simp add: finish_def scale_rows_def)
  qed
qed

lemma grid_2x2_slots: "orbit_slots grid_2x2 = [0, 0, 1, 2, 3, 3]"
  by (simp add: orbit_slots_def grid_2x2_keys grid_2x2_reduced grid_2x2_index)

theorem final_scaling_factor_witness:
  "init grid_2x2 = Inr engine_2x2 \<and> shapes_ok (shape grid_2x2) (shapeH grid_2x2)
   \<and> length (inv_multiplicity engine_2x2) = nat (prod3 (shapeH grid_2x2))
   \<and> count_list (orbit_slots grid_2x2) (int (global_index grid_2x2 0)) = 2
   \<and> inv_multiplicity engine_2x2 ! 0 = 1 / 4
   \<and> finish engine_2x2 4 [[1, 2, 3, 4]] (Inr [[4, 5, 5, 16]]) = (None, [[1, 5 / 2, 5 / 2, 4]])
   \<and> snd (finish engine_2x2 4 [[1, 2, 3, 4]] (Inr [[4, 5, 5, 16]])) ! 0 ! 0 =
       [[4, 5, 5, 16]] ! 0 ! 0 * of_real (1 / (real (n_sym engine_2x2) * real 2))"
proof -
  have h2: "shapes_ok (shape grid_2x2) (shapeH grid_2x2)" by (simp add: grid_2x2_fields)
  have im: "inv_multiplicity engine_2x2 = [1 / 4, 1 / 2, 1 / 2, 1 / 4]"
    by (simp add: engine_2x2_def)
  have h3: "if 1 < n_procs grid_2x2 then i_stop (split2H grid_2x2) \<le> nat (z3 (shapeH grid_2x2))
         else length (inv_multiplicity engine_2x2) = nat (prod3 (shapeH grid_2x2))"
    by (simp add: grid_2x2_fields im)
  have h4: "0 < length (inv_multiplicity engine_2x2)" by (simp add: im)
  have c: "count_list (orbit_slots grid_2x2) (int (global_index grid_2x2 0)) = 2"
    by (simp add: grid_2x2_slots global_index_def grid_2x2_fields)
  have f: "finish engine_2x2 4 [[1, 2, 3, 4]] (Inr [[4, 5, 5, 16]]) =
      (None, [[1, 5 / 2, 5 / 2, 4]])"
    by (simp add: finish_def scale_rows_def im)
  note t = final_scaling_factor[OF init_grid_2x2 h2 h3 h4]
  from t have a: "inv_multiplicity engine_2x2 ! 0 = 1 / 4" by (simp add: im)
  from t[THEN conjunct2, rule_format, of 4 "[[1, 2, 3, 4]]" "[[4, 5, 5, 16]]" 0]
  have b: "snd (finish engine_2x2 4 [[1, 2, 3, 4]] (Inr [[4, 5, 5, 16]])) ! 0 ! 0 =
       [[4, 5, 5, 16]] ! 0 ! 0 * of_real (1 / (real (n_sym engine_2x2) * real 2))"
    unfolding c by (simp add: f)
  from init_grid_2x2 h2 c a f b show ?thesis
    by (simp add: im grid_2x2_fields)
qed

section \<open>A call as a map on batch rows\<close>































section \<open>Idempotence\<close>














section \<open>The identity as the only operation\<close>



























section \<open>Frame and failure of a call\<close>
















text \<open>
  C10.  Whatever sequence of calls is made and however it ends, the engine (phase table,
  conjugation factors, multiplicities, index arrays, communication tables) is the one the
  calls started with, and the field keeps its grid, the shape of its data tensor and the
  number of its elements; only the elements change.  The element type is fixed by the type
  of \<open>data\<close>.
\<close>

theorem call_seq_frame:
  "call_seq e v rs = (err, e', v') \<Longrightarrow>
     e' = e \<and> f_grid v' = f_grid v \<and> data_shape v' = data_shape v
     \<and> length (data v') = length (data v)"
proof (induction rs arbitrary: e v)
  case Nil
  then show ?case by simp
next
  case (Cons r rs)
  obtain er e1 v1 where c: "call e v r = (er, e1, v1)" by (cases "call e v r") auto
  note f = call_frame[OF c]
  show ?case
  proof (cases er)
    case None
    with Cons.prems c have "call_seq e1 v1 rs = (err, e', v')" by simp
    from Cons.IH[OF this] f show ?thesis by simp
  next
    case (Some x)
    with Cons.prems c f show ?thesis by auto
  qed
qed

theorem call_seq_frame_witness:
  "call_seq engine_2x2 field_2x2 [([], [])] =
     (None, engine_2x2, field_2x2\<lparr>data := [1, 5 / 2, 5 / 2, 4]\<rparr>)
   \<and> data_shape (field_2x2\<lparr>data := [1, 5 / 2, 5 / 2, 4]\<rparr>) = data_shape field_2x2
   \<and> length (data (field_2x2\<lparr>data := [1, 5 / 2, 5 / 2, 4]\<rparr>)) = length (data field_2x2)"
proof -
  have h: "call_seq engine_2x2 field_2x2 [([], [])] =
     (None, engine_2x2, field_2x2\<lparr>data := [1, 5 / 2, 5 / 2, 4]\<rparr>)"
    by (simp add: call_2x2)
  from call_seq_frame[OF h] h show ?thesis by simp
qed

end
